theory Spec2Isabelle
  imports Complex_Main "HOL-Library.Log_Nat" "HOL-Library.Multiset"
begin

section \<open>Go values used by \<^verbatim>\<open>pkg/svc/aws_api.go\<close>\<close>

subsection \<open>\<^verbatim>\<open>float64\<close>\<close>

text \<open>
  A \<^verbatim>\<open>float64\<close> is an IEEE 754 binary64 number: a finite value (a rational that is a
  multiple of a power of two with a 53-bit significand), an infinity, or a NaN. Every
  arithmetic operation returns the exact result rounded to the nearest representable
  value, ties to even. The two zeros are identified: the program compares, adds,
  subtracts and multiplies them, and it divides only by the length of a slice, so no
  operation of the program tells them apart.
\<close>

datatype f64 = Fin rat | PInf | NInf | NaN

definition round_even :: "rat \<Rightarrow> int" where
  "round_even x = (let f = \<lfloor>x\<rfloor>; d = x - of_int f in
     if d < 1/2 then f else if 1/2 < d then f + 1 else if even f then f else f + 1)"

text \<open>\<open>ilog2 a\<close> is the exponent \<open>e\<close> with \<open>2^e \<le> a < 2^(e+1)\<close>, for positive \<open>a\<close>.\<close>

definition ilog2 :: "rat \<Rightarrow> int" where
  "ilog2 a = (let (p, q) = quotient_of a; e = bitlen p - bitlen q in
     if 2 powi e \<le> a then e else e - 1)"

text \<open>
  Rounding of an exact result to binary64: the spacing of the representable numbers
  around \<open>x\<close> is \<open>2^(e - 52)\<close>, where \<open>e\<close> is the exponent of \<open>x\<close>, at least \<open>-1022\<close>
  (the subnormal range). The rounded significand \<open>m\<close> is at most \<open>2^53\<close>, and the result
  overflows when it reaches \<open>2^1024\<close>: when \<open>e\<close> exceeds 1023, or is 1023 with \<open>m = 2^53\<close>.
\<close>

definition round64 :: "rat \<Rightarrow> f64" where
  "round64 x = (if x = 0 then Fin 0 else
     let a = \<bar>x\<bar>; e = max (ilog2 a) (- 1022); q = 2 powi (e - 52);
         m = round_even (a / q)
     in if 1023 < e \<or> (e = 1023 \<and> 2 ^ 53 \<le> m) then (if 0 < x then PInf else NInf)
        else Fin (if 0 < x then of_int m * q else - (of_int m * q)))"

definition sign_f64 :: "f64 \<Rightarrow> int" where
  "sign_f64 x = (case x of Fin a \<Rightarrow> (if a = 0 then 0 else if 0 < a then 1 else - 1)
     | PInf \<Rightarrow> 1 | NInf \<Rightarrow> - 1 | NaN \<Rightarrow> 0)"

definition inf_of_sign :: "int \<Rightarrow> f64" where
  "inf_of_sign s = (if s = 0 then NaN else if 0 < s then PInf else NInf)"

fun fneg :: "f64 \<Rightarrow> f64" where
  "fneg (Fin a) = Fin (- a)"
| "fneg PInf = NInf"
| "fneg NInf = PInf"
| "fneg NaN = NaN"

fun fadd :: "f64 \<Rightarrow> f64 \<Rightarrow> f64" where
  "fadd (Fin a) (Fin b) = round64 (a + b)"
| "fadd NaN _ = NaN"
| "fadd _ NaN = NaN"
| "fadd PInf NInf = NaN"
| "fadd NInf PInf = NaN"
| "fadd PInf _ = PInf"
| "fadd _ PInf = PInf"
| "fadd NInf _ = NInf"
| "fadd _ NInf = NInf"

definition fsub :: "f64 \<Rightarrow> f64 \<Rightarrow> f64" where
  "fsub x y = fadd x (fneg y)"

fun fmul :: "f64 \<Rightarrow> f64 \<Rightarrow> f64" where
  "fmul (Fin a) (Fin b) = round64 (a * b)"
| "fmul NaN _ = NaN"
| "fmul _ NaN = NaN"
| "fmul x y = inf_of_sign (sign_f64 x * sign_f64 y)"

text \<open>Division; a zero divisor is the positive zero (the only one the program divides by).\<close>

fun fdiv :: "f64 \<Rightarrow> f64 \<Rightarrow> f64" where
  "fdiv (Fin a) (Fin b) = (if b = 0 then inf_of_sign (sign_f64 (Fin a)) else round64 (a / b))"
| "fdiv NaN _ = NaN"
| "fdiv _ NaN = NaN"
| "fdiv (Fin a) _ = Fin 0"
| "fdiv x (Fin b) = inf_of_sign (sign_f64 x * (if b < 0 then - 1 else 1))"
| "fdiv _ _ = NaN"

text \<open>Comparisons: every comparison with a NaN is false, except \<^verbatim>\<open>!=\<close>.\<close>

fun flt :: "f64 \<Rightarrow> f64 \<Rightarrow> bool" where
  "flt (Fin a) (Fin b) = (a < b)"
| "flt NaN _ = False"
| "flt _ NaN = False"
| "flt PInf _ = False"
| "flt _ PInf = True"
| "flt _ NInf = False"
| "flt NInf _ = True"

definition fgt :: "f64 \<Rightarrow> f64 \<Rightarrow> bool" where
  "fgt x y = flt y x"

fun feq :: "f64 \<Rightarrow> f64 \<Rightarrow> bool" where
  "feq (Fin a) (Fin b) = (a = b)"
| "feq PInf PInf = True"
| "feq NInf NInf = True"
| "feq _ _ = False"

definition fne :: "f64 \<Rightarrow> f64 \<Rightarrow> bool" where
  "fne x y = (\<not> feq x y)"

text \<open>\<^verbatim>\<open>math.Round\<close>: the nearest integer, halves away from zero; infinities and NaN unchanged.\<close>

definition math_Round :: "f64 \<Rightarrow> f64" where
  "math_Round x = (case x of
       Fin r \<Rightarrow> Fin (if 0 \<le> r then of_int \<lfloor>r + 1/2\<rfloor> else - of_int \<lfloor>- r + 1/2\<rfloor>)
     | _ \<Rightarrow> x)"

text \<open>\<^verbatim>\<open>float64(n)\<close> for a slice length \<open>n\<close>.\<close>

definition float64_of_len :: "nat \<Rightarrow> f64" where
  "float64_of_len n = round64 (of_nat n)"

subsection \<open>Panics, pointers, maps\<close>

text \<open>
  A run-time panic of the Go program is the left summand of the result. A pointer field
  is an \<open>option\<close> (\<open>None\<close> is \<^verbatim>\<open>nil\<close>). A \<^verbatim>\<open>map[string]V\<close> that the program receives is
  the list of its entries in the order in which the one \<^verbatim>\<open>range\<close> statement over it
  visits them (Go leaves that order open, so a statement about every list is a statement
  about every order); an index expression \<^verbatim>\<open>m[k]\<close> is \<open>map_of\<close>.
\<close>

datatype panic = NilPointerDereference | IndexOutOfRange

datatype parse_error = ErrSyntax | ErrRange

datatype error = Error string

subsection \<open>The Cost Explorer records (\<^verbatim>\<open>ceTypes\<close>)\<close>

record MetricValue =
  Amount :: "string option"
  Unit :: "string option"

record DateInterval =
  Start :: "string option"
  End :: "string option"

record Group =
  Keys :: "string list"
  Metrics :: "(string \<times> MetricValue) list"

text \<open>The output points (\<^verbatim>\<open>pb.DateAggregation\<close>).\<close>

record DateAggregation =
  Date :: string
  Amount :: f64

record ResultByTime =
  Estimated :: bool
  Groups :: "Group list"
  TimePeriod :: "DateInterval option"
  Total :: "(string \<times> MetricValue) list"

subsection \<open>The environment of a call\<close>

text \<open>
  \<^verbatim>\<open>strconv.ParseFloat(s, 64)\<close> belongs to the Go library, the \<^verbatim>\<open>viper\<close> settings to the
  process configuration, and the constant \<^verbatim>\<open>ceTypes.MetricNetAmortizedCost\<close> to the Cost
  Explorer SDK: they are parameters of the model. \<open>ParseFloat\<close> returns the value and the
  error of the library call (\<open>None\<close> is \<^verbatim>\<open>nil\<close>); \<open>MetricNetAmortizedCost\<close> is the string
  \<^verbatim>\<open>string(ceTypes.MetricNetAmortizedCost)\<close>, the key under which the surcharge looks up the
  total of a period.
\<close>

record env =
  ParseFloat :: "string \<Rightarrow> f64 \<times> parse_error option"
  MetricNetAmortizedCost :: string
  cost_round :: bool
  support_cost :: bool
  account_type :: string

section \<open>Account profiles\<close>

record SupportCostThreshold =
  CostMultiplier :: f64
  CostStartInterval :: f64
  CostEndInterval :: f64

record AwsAccount =
  AccountType :: string
  MinSupportCost :: f64
  SupportCostThresholds :: "SupportCostThreshold list"

definition DeveloperAccount :: string where
  "DeveloperAccount = ''DEVELOPER''"

definition BusinessAccount :: string where
  "BusinessAccount = ''BUSINESS''"

definition EnterpriseAccount :: string where
  "EnterpriseAccount = ''ENTERPRISE''"

text \<open>A floating-point literal denotes the binary64 number nearest to its decimal value.\<close>

definition threshold :: "rat \<Rightarrow> rat \<Rightarrow> rat \<Rightarrow> SupportCostThreshold" where
  "threshold m s e =
     \<lparr>CostMultiplier = round64 m, CostStartInterval = round64 s, CostEndInterval = round64 e\<rparr>"

text \<open>\<^verbatim>\<open>AwsAccounts[t]\<close>: a key that is not in the table gives the zero value.\<close>

definition AwsAccounts :: "string \<Rightarrow> AwsAccount" where
  "AwsAccounts t =
     (if t = DeveloperAccount then
        \<lparr>AccountType = DeveloperAccount, MinSupportCost = round64 29,
         SupportCostThresholds = [threshold (3/100) 0 0]\<rparr>
      else if t = BusinessAccount then
        \<lparr>AccountType = BusinessAccount, MinSupportCost = round64 100,
         SupportCostThresholds =
           [threshold (10/100) 0 10000, threshold (7/100) 10000 80000,
            threshold (5/100) 80000 250000, threshold (3/100) 250000 0]\<rparr>
      else if t = EnterpriseAccount then
        \<lparr>AccountType = EnterpriseAccount, MinSupportCost = round64 15000,
         SupportCostThresholds =
           [threshold (10/100) 0 150000, threshold (7/100) 150000 500000,
            threshold (5/100) 500000 1000000, threshold (3/100) 1000000 0]\<rparr>
      else \<lparr>AccountType = [], MinSupportCost = Fin 0, SupportCostThresholds = []\<rparr>)"

section \<open>Metric amounts\<close>

text \<open>
  \<^verbatim>\<open>getAwsMetricAmount\<close>: the error of \<^verbatim>\<open>ParseFloat\<close> is dropped and its value is used;
  \<^verbatim>\<open>*metric.Amount\<close> panics on a nil pointer.
\<close>

definition getAwsMetricAmount :: "env \<Rightarrow> MetricValue \<Rightarrow> panic + f64" where
  "getAwsMetricAmount ev metric =
     (case MetricValue.Amount metric of
        None \<Rightarrow> Inl NilPointerDereference
      | Some s \<Rightarrow>
          (let amount = fst (ParseFloat ev s) in
           if cost_round ev then Inr (math_Round amount) else Inr amount))"

section \<open>The tiered surcharge (\<^verbatim>\<open>SupportCostForAWS\<close>)\<close>

text \<open>The first loop: the sum of the net amortized cost of the periods.\<close>

fun sumDateAggregationAmounts :: "env \<Rightarrow> ResultByTime list \<Rightarrow> f64 \<Rightarrow> panic + f64" where
  "sumDateAggregationAmounts ev [] acc = Inr acc"
| "sumDateAggregationAmounts ev (result # results) acc =
     (case map_of (Total result) (MetricNetAmortizedCost ev) of
        None \<Rightarrow> Inl NilPointerDereference
      | Some metric \<Rightarrow>
          (case MetricValue.Amount metric of
             None \<Rightarrow> Inl NilPointerDereference
           | Some s \<Rightarrow>
               sumDateAggregationAmounts ev results (fadd acc (fst (ParseFloat ev s)))))"

text \<open>The second loop: the walk over the brackets, with the accumulated \<open>supportCost\<close>.\<close>

fun costThresholds :: "f64 \<Rightarrow> SupportCostThreshold list \<Rightarrow> f64 \<Rightarrow> f64" where
  "costThresholds sumAmounts [] supportCost = supportCost"
| "costThresholds sumAmounts (t # ts) supportCost =
     (if fgt (CostStartInterval t) sumAmounts then supportCost
      else if fne (CostEndInterval t) (Fin 0) then
        (if fgt (CostEndInterval t) sumAmounts then
           fadd supportCost (fmul (fsub sumAmounts (CostStartInterval t)) (CostMultiplier t))
         else if fgt sumAmounts (CostEndInterval t) then
           costThresholds sumAmounts ts
             (fadd supportCost
                (fmul (fsub (CostEndInterval t) (CostStartInterval t)) (CostMultiplier t)))
         else costThresholds sumAmounts ts supportCost)
      else fadd supportCost (fmul (fsub sumAmounts (CostStartInterval t)) (CostMultiplier t)))"

definition SupportCostForAWS ::
  "env \<Rightarrow> AwsAccount \<Rightarrow> ResultByTime list \<Rightarrow> panic + (f64 \<times> error option)" where
  "SupportCostForAWS ev account results =
     (case sumDateAggregationAmounts ev results (Fin 0) of
        Inl p \<Rightarrow> Inl p
      | Inr sumAmounts \<Rightarrow>
          (case SupportCostThresholds account of
             [] \<Rightarrow> Inl IndexOutOfRange
           | t # _ \<Rightarrow>
               if flt (fmul sumAmounts (CostMultiplier t)) (MinSupportCost account)
               then Inr (MinSupportCost account, None)
               else Inr (costThresholds sumAmounts (SupportCostThresholds account) (Fin 0), None)))"

section \<open>The date series (\<^verbatim>\<open>aggregationForAWS\<close>)\<close>

text \<open>
  The inner loop over \<^verbatim>\<open>result.Total\<close>: each metric overwrites \<^verbatim>\<open>value.Amount\<close>, which starts
  at the zero value.
\<close>

fun totalMetrics ::
  "env \<Rightarrow> f64 \<Rightarrow> nat \<Rightarrow> (string \<times> MetricValue) list \<Rightarrow> f64 \<Rightarrow> panic + f64" where
  "totalMetrics ev supCost n [] amount = Inr amount"
| "totalMetrics ev supCost n ((name, metric) # metrics) amount =
     (case getAwsMetricAmount ev metric of
        Inl p \<Rightarrow> Inl p
      | Inr a \<Rightarrow> totalMetrics ev supCost n metrics (fadd a (fdiv supCost (float64_of_len n))))"

text \<open>The loop over the periods, with \<open>n = len(results)\<close> and the slice built so far.\<close>

fun dateAggregations ::
  "env \<Rightarrow> f64 \<Rightarrow> nat \<Rightarrow> ResultByTime list \<Rightarrow> DateAggregation list
     \<Rightarrow> panic + DateAggregation list" where
  "dateAggregations ev supCost n [] ret = Inr ret"
| "dateAggregations ev supCost n (result # results) ret =
     (case TimePeriod result of
        None \<Rightarrow> Inl NilPointerDereference
      | Some tp \<Rightarrow>
          (case Start tp of
             None \<Rightarrow> Inl NilPointerDereference
           | Some d \<Rightarrow>
               (case totalMetrics ev supCost n (Total result) (Fin 0) of
                  Inl p \<Rightarrow> Inl p
                | Inr amount \<Rightarrow>
                    dateAggregations ev supCost n results
                      (if fgt amount (Fin 0) then ret @ [\<lparr>Date = d, Amount = amount\<rparr>]
                       else ret))))"

text \<open>The surcharge that the date series spreads: zero unless \<^verbatim>\<open>support.cost\<close> is set.\<close>

definition supCostOf :: "env \<Rightarrow> ResultByTime list \<Rightarrow> panic + f64" where
  "supCostOf ev results =
     (if support_cost ev then
        (case SupportCostForAWS ev (AwsAccounts (account_type ev)) results of
           Inl p \<Rightarrow> Inl p
         | Inr (supportCost, err) \<Rightarrow> Inr supportCost)
      else Inr (Fin 0))"

definition aggregationForAWS ::
  "env \<Rightarrow> ResultByTime list \<Rightarrow> panic + (DateAggregation list \<times> error option)" where
  "aggregationForAWS ev results =
     (case supCostOf ev results of
        Inl p \<Rightarrow> Inl p
      | Inr supCost \<Rightarrow>
          (case dateAggregations ev supCost (length results) results [] of
             Inl p \<Rightarrow> Inl p
           | Inr ret \<Rightarrow> Inr (ret, None)))"

section \<open>The key index (\<^verbatim>\<open>getGroupedAwsKeyIndex\<close>)\<close>

text \<open>
  The map \<^verbatim>\<open>keys\<close> that the program builds is the list of its entries in insertion
  order: \<^verbatim>\<open>len(keys)\<close> is its length, \<^verbatim>\<open>keys[k]\<close> is \<open>map_of\<close>, with the zero value for a
  key that is absent. \<^verbatim>\<open>group.Keys[0]\<close> panics on an empty slice.
\<close>

type_synonym key_index = "(string \<times> nat) list"

fun keyIndexGroups :: "Group list \<Rightarrow> key_index \<Rightarrow> panic + key_index" where
  "keyIndexGroups [] keys = Inr keys"
| "keyIndexGroups (grp # groups) keys =
     (case Keys grp of
        [] \<Rightarrow> Inl IndexOutOfRange
      | k # _ \<Rightarrow>
          keyIndexGroups groups
            (if map_of keys k = None then keys @ [(k, length keys)] else keys))"

fun keyIndexResults :: "ResultByTime list \<Rightarrow> key_index \<Rightarrow> panic + key_index" where
  "keyIndexResults [] keys = Inr keys"
| "keyIndexResults (result # results) keys =
     (case keyIndexGroups (Groups result) keys of
        Inl p \<Rightarrow> Inl p
      | Inr keys' \<Rightarrow> keyIndexResults results keys')"

definition getGroupedAwsKeyIndex :: "ResultByTime list \<Rightarrow> panic + key_index" where
  "getGroupedAwsKeyIndex results = keyIndexResults results []"

definition lookupIndex :: "key_index \<Rightarrow> string \<Rightarrow> nat" where
  "lookupIndex keys k = (case map_of keys k of None \<Rightarrow> 0 | Some i \<Rightarrow> i)"

text \<open>
  A \<^verbatim>\<open>range\<close> over the map \<^verbatim>\<open>keys\<close> visits every entry once, in an order that Go leaves
  open and that may differ from one loop to the next. The order of one loop is given by a
  schedule: each number picks the next entry among those not yet visited; when the schedule
  is used up, the rest follows in insertion order.
\<close>

fun range_order :: "nat list \<Rightarrow> 'a list \<Rightarrow> 'a list" where
  "range_order [] xs = xs"
| "range_order (c # cs) xs =
     (if xs = [] then []
      else (let i = c mod length xs
            in xs ! i # range_order cs (take i xs @ drop (Suc i) xs)))"

section \<open>The grouped series (\<^verbatim>\<open>getGroupedAwsProducts\<close>)\<close>

record ProductCost =
  Id :: string
  Aggregation :: "DateAggregation list"

text \<open>
  \<^verbatim>\<open>costs\<close> is a slice of pointers, nil after \<^verbatim>\<open>make\<close>; every \<^verbatim>\<open>ProductCost\<close> is referenced from
  one slot only, so that an update through the pointer is an update of the slot.
\<close>

fun initProductCosts :: "key_index \<Rightarrow> ProductCost option list \<Rightarrow> panic + ProductCost option list" where
  "initProductCosts [] costs = Inr costs"
| "initProductCosts ((key, index) # entries) costs =
     (if index < length costs
      then initProductCosts entries (costs[index := Some \<lparr>Id = key, Aggregation = []\<rparr>])
      else Inl IndexOutOfRange)"

text \<open>The loop over \<^verbatim>\<open>group.Metrics\<close>: each metric overwrites the amount.\<close>

fun groupMetrics :: "env \<Rightarrow> (string \<times> MetricValue) list \<Rightarrow> f64 \<Rightarrow> panic + f64" where
  "groupMetrics ev [] amount = Inr amount"
| "groupMetrics ev ((name, metric) # metrics) amount =
     (case getAwsMetricAmount ev metric of
        Inl p \<Rightarrow> Inl p
      | Inr a \<Rightarrow> groupMetrics ev metrics a)"

fun productGroups ::
  "env \<Rightarrow> key_index \<Rightarrow> ResultByTime \<Rightarrow> Group list \<Rightarrow> ProductCost option list
     \<Rightarrow> panic + ProductCost option list" where
  "productGroups ev keys result [] costs = Inr costs"
| "productGroups ev keys result (grp # groups) costs =
     (case Keys grp of
        [] \<Rightarrow> Inl IndexOutOfRange
      | k # _ \<Rightarrow>
          (let i = lookupIndex keys k in
           if \<not> i < length costs then Inl IndexOutOfRange
           else
             (case TimePeriod result of
                None \<Rightarrow> Inl NilPointerDereference
              | Some tp \<Rightarrow>
                  (case Start tp of
                     None \<Rightarrow> Inl NilPointerDereference
                   | Some d \<Rightarrow>
                       (case groupMetrics ev (Metrics grp) (Fin 0) of
                          Inl p \<Rightarrow> Inl p
                        | Inr amount \<Rightarrow>
                            if fgt amount (Fin 0) then
                              (case costs ! i of
                                 None \<Rightarrow> Inl NilPointerDereference
                               | Some cost \<Rightarrow>
                                   productGroups ev keys result groups
                                     (costs[i := Some (cost\<lparr>Aggregation :=
                                        Aggregation cost @ [\<lparr>Date = d, Amount = amount\<rparr>]\<rparr>)]))
                            else productGroups ev keys result groups costs)))))"

fun productResults ::
  "env \<Rightarrow> key_index \<Rightarrow> ResultByTime list \<Rightarrow> ProductCost option list
     \<Rightarrow> panic + ProductCost option list" where
  "productResults ev keys [] costs = Inr costs"
| "productResults ev keys (result # results) costs =
     (case productGroups ev keys result (Groups result) costs of
        Inl p \<Rightarrow> Inl p
      | Inr costs' \<Rightarrow> productResults ev keys results costs')"

fun filterProductCosts ::
  "key_index \<Rightarrow> ProductCost option list \<Rightarrow> ProductCost list \<Rightarrow> panic + ProductCost list" where
  "filterProductCosts [] costs filteredCosts = Inr filteredCosts"
| "filterProductCosts ((key, index) # entries) costs filteredCosts =
     (if \<not> index < length costs then Inl IndexOutOfRange
      else
        (case costs ! index of
           None \<Rightarrow> Inl NilPointerDereference
         | Some cost \<Rightarrow>
             filterProductCosts entries costs
               (if 0 < length (Aggregation cost) then filteredCosts @ [cost]
                else filteredCosts)))"

text \<open>The two schedules are those of the two \<^verbatim>\<open>range keys\<close> loops.\<close>

definition getGroupedAwsProducts ::
  "env \<Rightarrow> nat list \<Rightarrow> nat list \<Rightarrow> ResultByTime list
     \<Rightarrow> panic + (ProductCost list \<times> error option)" where
  "getGroupedAwsProducts ev sched1 sched2 results =
     (case getGroupedAwsKeyIndex results of
        Inl p \<Rightarrow> Inl p
      | Inr keys \<Rightarrow>
          (case initProductCosts (range_order sched1 keys) (replicate (length keys) None) of
             Inl p \<Rightarrow> Inl p
           | Inr costs \<Rightarrow>
               (case productResults ev keys results costs of
                  Inl p \<Rightarrow> Inl p
                | Inr costs' \<Rightarrow>
                    (case filterProductCosts (range_order sched2 keys) costs' [] of
                       Inl p \<Rightarrow> Inl p
                     | Inr filteredCosts \<Rightarrow> Inr (filteredCosts, None)))))"

section \<open>The two-period split (\<^verbatim>\<open>getEntityAwsProducts\<close>)\<close>

text \<open>
  \<^verbatim>\<open>pb.Entity\<close>, without the field \<^verbatim>\<open>Entities\<close>, which stays the empty record it is created
  with. \<^verbatim>\<open>utils.ChangeOfEntity\<close> and the type of its result are outside this file: they are
  parameters, and so is the empty \<^verbatim>\<open>pb.ChangeStatistic\<close> an entity starts with.
\<close>

record 'c Entity =
  Id :: string
  Aggregation :: "f64 list"
  Change :: 'c

fun initEntities :: "'c \<Rightarrow> key_index \<Rightarrow> 'c Entity option list \<Rightarrow> panic + 'c Entity option list" where
  "initEntities change0 [] costs = Inr costs"
| "initEntities change0 ((key, index) # entries) costs =
     (if index < length costs
      then initEntities change0 entries
             (costs[index := Some \<lparr>Id = key, Aggregation = [Fin 0, Fin 0], Change = change0\<rparr>])
      else Inl IndexOutOfRange)"

text \<open>
  \<^verbatim>\<open>costs[keys[k]].Aggregation[b] = costs[keys[k]].Aggregation[b] + amount\<close>, for the
  bucket \<open>b\<close>.
\<close>

definition addToBucket ::
  "key_index \<Rightarrow> Group \<Rightarrow> nat \<Rightarrow> f64 \<Rightarrow> 'c Entity option list \<Rightarrow> panic + 'c Entity option list" where
  "addToBucket keys grp b amount costs =
     (case Keys grp of
        [] \<Rightarrow> Inl IndexOutOfRange
      | k # _ \<Rightarrow>
          (let i = lookupIndex keys k in
           if \<not> i < length costs then Inl IndexOutOfRange
           else
             (case costs ! i of
                None \<Rightarrow> Inl NilPointerDereference
              | Some entity \<Rightarrow>
                  if \<not> b < length (Aggregation entity) then Inl IndexOutOfRange
                  else Inr (costs[i := Some (entity\<lparr>Aggregation :=
                         (Aggregation entity)[b := fadd (Aggregation entity ! b) amount]\<rparr>)]))))"

fun entityGroups ::
  "env \<Rightarrow> key_index \<Rightarrow> nat \<Rightarrow> nat \<Rightarrow> Group list \<Rightarrow> 'c Entity option list
     \<Rightarrow> panic + 'c Entity option list" where
  "entityGroups ev keys midPoint i [] costs = Inr costs"
| "entityGroups ev keys midPoint i (grp # groups) costs =
     (case groupMetrics ev (Metrics grp) (Fin 0) of
        Inl p \<Rightarrow> Inl p
      | Inr amount \<Rightarrow>
          (case addToBucket keys grp (if midPoint \<le> i then 1 else 0) amount costs of
             Inl p \<Rightarrow> Inl p
           | Inr costs' \<Rightarrow> entityGroups ev keys midPoint i groups costs'))"

fun entityResults ::
  "env \<Rightarrow> key_index \<Rightarrow> nat \<Rightarrow> nat \<Rightarrow> ResultByTime list \<Rightarrow> 'c Entity option list
     \<Rightarrow> panic + 'c Entity option list" where
  "entityResults ev keys midPoint i [] costs = Inr costs"
| "entityResults ev keys midPoint i (result # results) costs =
     (case entityGroups ev keys midPoint i (Groups result) costs of
        Inl p \<Rightarrow> Inl p
      | Inr costs' \<Rightarrow> entityResults ev keys midPoint (Suc i) results costs')"

text \<open>
  \<^verbatim>\<open>Aggregation[0] == 0 && Aggregation[1] == 0\<close>: the second operand is evaluated only
  when the first holds.
\<close>

definition aggregationIsZero :: "f64 list \<Rightarrow> panic + bool" where
  "aggregationIsZero aggregation =
     (if \<not> 0 < length aggregation then Inl IndexOutOfRange
      else if \<not> feq (aggregation ! 0) (Fin 0) then Inr False
      else if \<not> 1 < length aggregation then Inl IndexOutOfRange
      else Inr (feq (aggregation ! 1) (Fin 0)))"

fun filterEntities ::
  "(f64 list \<Rightarrow> 'c) \<Rightarrow> key_index \<Rightarrow> 'c Entity option list \<Rightarrow> 'c Entity list
     \<Rightarrow> panic + 'c Entity list" where
  "filterEntities changeOfEntity [] costs filteredCosts = Inr filteredCosts"
| "filterEntities changeOfEntity ((key, index) # entries) costs filteredCosts =
     (if \<not> index < length costs then Inl IndexOutOfRange
      else
        (case costs ! index of
           None \<Rightarrow> Inl NilPointerDereference
         | Some entity \<Rightarrow>
             (case aggregationIsZero (Aggregation entity) of
                Inl p \<Rightarrow> Inl p
              | Inr zero \<Rightarrow>
                  if \<not> zero
                  then filterEntities changeOfEntity entries costs
                         (filteredCosts @
                            [entity\<lparr>Change := changeOfEntity (Aggregation entity)\<rparr>])
                  else filterEntities changeOfEntity entries costs filteredCosts)))"

definition getEntityAwsProducts ::
  "env \<Rightarrow> 'c \<Rightarrow> (f64 list \<Rightarrow> 'c) \<Rightarrow> nat list \<Rightarrow> nat list \<Rightarrow> ResultByTime list
     \<Rightarrow> panic + ('c Entity list \<times> error option)" where
  "getEntityAwsProducts ev change0 changeOfEntity sched1 sched2 results =
     (case getGroupedAwsKeyIndex results of
        Inl p \<Rightarrow> Inl p
      | Inr keys \<Rightarrow>
          (case initEntities change0 (range_order sched1 keys) (replicate (length keys) None) of
             Inl p \<Rightarrow> Inl p
           | Inr costs \<Rightarrow>
               (case entityResults ev keys (length results div 2) 0 results costs of
                  Inl p \<Rightarrow> Inl p
                | Inr costs' \<Rightarrow>
                    (case filterEntities changeOfEntity (range_order sched2 keys) costs' [] of
                       Inl p \<Rightarrow> Inl p
                     | Inr filteredCosts \<Rightarrow> Inr (filteredCosts, None)))))"

section \<open>What the functions are expected to compute\<close>

subsection \<open>Well-formed periods\<close>

text \<open>
  The conditions under which no pointer of a record is nil: every metric of a metric map
  has an amount string, and a period has a start date.
\<close>

definition hasAmounts :: "(string \<times> MetricValue) list \<Rightarrow> bool" where
  "hasAmounts metrics = list_all (\<lambda>(name, metric). MetricValue.Amount metric \<noteq> None) metrics"

definition hasStart :: "ResultByTime \<Rightarrow> bool" where
  "hasStart result =
     (case TimePeriod result of None \<Rightarrow> False | Some tp \<Rightarrow> Start tp \<noteq> None)"

definition hasNetAmortizedCost :: "env \<Rightarrow> ResultByTime \<Rightarrow> bool" where
  "hasNetAmortizedCost ev result =
     (case map_of (Total result) (MetricNetAmortizedCost ev) of
        None \<Rightarrow> False
      | Some metric \<Rightarrow> MetricValue.Amount metric \<noteq> None)"

text \<open>The start date of a period (the empty string stands in when there is none).\<close>

definition startOf :: "ResultByTime \<Rightarrow> string" where
  "startOf result =
     (case TimePeriod result of
        None \<Rightarrow> []
      | Some tp \<Rightarrow> (case Start tp of None \<Rightarrow> [] | Some d \<Rightarrow> d))"

text \<open>
  The amount of a metric is what \<open>getAwsMetricAmount\<close> returns for it. The cost metric
  amount of a metric map is the amount of the entry that the loop over the map visits
  last: of its only entry, when the query asked for one metric. An empty map leaves the
  zero value.
\<close>

definition amountOf :: "env \<Rightarrow> MetricValue \<Rightarrow> f64" where
  "amountOf ev metric = (case getAwsMetricAmount ev metric of Inl p \<Rightarrow> Fin 0 | Inr a \<Rightarrow> a)"

definition costMetricAmount :: "env \<Rightarrow> (string \<times> MetricValue) list \<Rightarrow> f64" where
  "costMetricAmount ev metrics =
     (if metrics = [] then Fin 0 else amountOf ev (snd (last metrics)))"

subsection \<open>The date series\<close>

text \<open>
  One point per period, in the order of the periods: the cost metric amount of the period
  plus the share \<open>s / n\<close> of the surcharge, kept when it is greater than zero.
\<close>

definition periodAmount :: "env \<Rightarrow> f64 \<Rightarrow> nat \<Rightarrow> ResultByTime \<Rightarrow> f64" where
  "periodAmount ev s n result =
     fadd (costMetricAmount ev (Total result)) (fdiv s (float64_of_len n))"

definition dateSeries :: "env \<Rightarrow> f64 \<Rightarrow> ResultByTime list \<Rightarrow> DateAggregation list" where
  "dateSeries ev s results =
     map (\<lambda>result. \<lparr>Date = startOf result, Amount = periodAmount ev s (length results) result\<rparr>)
       (filter (\<lambda>result. fgt (periodAmount ev s (length results) result) (Fin 0)) results)"

subsection \<open>The key index\<close>

text \<open>
  The first-level key of a group, the keys of a period sequence in the order of the scan
  (periods, then groups), and the distinct elements of a list in the order of their first
  occurrences (\<open>remdups\<close> keeps the last occurrence of each element, hence the reversals).
\<close>

definition firstKey :: "Group \<Rightarrow> string" where
  "firstKey grp = (case Keys grp of [] \<Rightarrow> [] | k # _ \<Rightarrow> k)"

definition allKeys :: "ResultByTime list \<Rightarrow> string list" where
  "allKeys results = concat (map (\<lambda>result. map firstKey (Groups result)) results)"

definition firstSeen :: "'a list \<Rightarrow> 'a list" where
  "firstSeen xs = rev (remdups (rev xs))"

text \<open>The index that gives the slots \<open>0, 1, 2, ...\<close> to the keys \<open>ks\<close>, in this order.\<close>

definition slots :: "string list \<Rightarrow> key_index" where
  "slots ks = zip ks [0..<length ks]"

text \<open>Every group of the period has a first-level key.\<close>

definition hasKeys :: "ResultByTime \<Rightarrow> bool" where
  "hasKeys result = list_all (\<lambda>grp. Keys grp \<noteq> []) (Groups result)"

text \<open>One step of the scan: a key that is not in the index yet gets the next slot.\<close>

definition addKey :: "key_index \<Rightarrow> string \<Rightarrow> key_index" where
  "addKey keys k = (if map_of keys k = None then keys @ [(k, length keys)] else keys)"

subsection \<open>The grouped series\<close>

text \<open>
  The points of the key \<open>k\<close> in one period: one for each group of the period with the key
  \<open>k\<close> whose cost metric amount is greater than zero, with the start date of the period.
  The series of a key collects them over the periods, in order.
\<close>

definition groupPoints :: "env \<Rightarrow> string \<Rightarrow> ResultByTime \<Rightarrow> DateAggregation list" where
  "groupPoints ev k result =
     map (\<lambda>grp. \<lparr>Date = startOf result, Amount = costMetricAmount ev (Metrics grp)\<rparr>)
       (filter (\<lambda>grp. firstKey grp = k \<and> fgt (costMetricAmount ev (Metrics grp)) (Fin 0))
          (Groups result))"

definition seriesOf :: "env \<Rightarrow> ResultByTime list \<Rightarrow> string \<Rightarrow> DateAggregation list" where
  "seriesOf ev results k = concat (map (groupPoints ev k) results)"

text \<open>The series of the keys \<open>ks\<close>, in this order, without the keys whose series is empty.\<close>

definition groupedSeries :: "env \<Rightarrow> ResultByTime list \<Rightarrow> string list \<Rightarrow> ProductCost list" where
  "groupedSeries ev results ks =
     filter (\<lambda>cost. ProductCost.Aggregation cost \<noteq> [])
       (map (\<lambda>k. \<lparr>ProductCost.Id = k, Aggregation = seriesOf ev results k\<rparr>) ks)"

text \<open>
  A period of a grouped query without nil pointers: its groups have a key and amounts,
  and it has a start date if it has a group (the date is read once per group).
\<close>

definition wfGrouped :: "ResultByTime \<Rightarrow> bool" where
  "wfGrouped result =
     (hasKeys result \<and> list_all (\<lambda>grp. hasAmounts (Metrics grp)) (Groups result) \<and>
      (Groups result = [] \<or> hasStart result))"

subsection \<open>The two-period split\<close>

text \<open>
  The amounts of the groups with the key \<open>k\<close>, in the order of the scan, and their sum as the
  program adds it up, starting from zero. The pair of a key holds the sum over the periods
  before the midpoint and the sum over the periods from the midpoint on.
\<close>

definition groupAmounts :: "env \<Rightarrow> string \<Rightarrow> ResultByTime list \<Rightarrow> f64 list" where
  "groupAmounts ev k results =
     concat (map (\<lambda>result. map (\<lambda>grp. costMetricAmount ev (Metrics grp))
                             (filter (\<lambda>grp. firstKey grp = k) (Groups result))) results)"

definition bucketTotal :: "env \<Rightarrow> string \<Rightarrow> ResultByTime list \<Rightarrow> f64" where
  "bucketTotal ev k results = foldl fadd (Fin 0) (groupAmounts ev k results)"

definition beforeAfter :: "env \<Rightarrow> ResultByTime list \<Rightarrow> string \<Rightarrow> f64 list" where
  "beforeAfter ev results k =
     [bucketTotal ev k (take (length results div 2) results),
      bucketTotal ev k (drop (length results div 2) results)]"

definition bothZero :: "f64 list \<Rightarrow> bool" where
  "bothZero pair = (feq (pair ! 0) (Fin 0) \<and> feq (pair ! 1) (Fin 0))"

definition entityOf :: "env \<Rightarrow> (f64 list \<Rightarrow> 'c) \<Rightarrow> ResultByTime list \<Rightarrow> string \<Rightarrow> 'c Entity" where
  "entityOf ev changeOfEntity results k =
     \<lparr>Id = k, Aggregation = beforeAfter ev results k,
      Change = changeOfEntity (beforeAfter ev results k)\<rparr>"

text \<open>The entities of the keys \<open>ks\<close>, in this order, without the keys whose pair is zero twice.\<close>

definition entitySplit ::
  "env \<Rightarrow> (f64 list \<Rightarrow> 'c) \<Rightarrow> ResultByTime list \<Rightarrow> string list \<Rightarrow> 'c Entity list" where
  "entitySplit ev changeOfEntity results ks =
     map (entityOf ev changeOfEntity results)
       (filter (\<lambda>k. \<not> bothZero (beforeAfter ev results k)) ks)"

definition wfEntity :: "ResultByTime \<Rightarrow> bool" where
  "wfEntity result =
     (hasKeys result \<and> list_all (\<lambda>grp. hasAmounts (Metrics grp)) (Groups result))"

section \<open>Example data\<close>

text \<open>
  A parser for the examples: it agrees with \<^verbatim>\<open>strconv.ParseFloat\<close> on the strings of decimal
  digits with an optional sign, which it reads as the nearest binary64 number (an infinity
  with \<^verbatim>\<open>ErrRange\<close> when the number is out of range), and on the string \<^verbatim>\<open>NaN\<close>, which the
  library reads as a NaN without an error. It answers every other string with the value 0
  and a syntax error, as the library does for a string that is not a number (the library
  accepts more forms of numbers than this parser; the examples use none of them).
\<close>

definition digit_of :: "char \<Rightarrow> nat option" where
  "digit_of c = (let n = (of_char c :: nat) in if 48 \<le> n \<and> n \<le> 57 then Some (n - 48) else None)"

fun digits_value :: "string \<Rightarrow> nat \<Rightarrow> nat option" where
  "digits_value [] acc = Some acc"
| "digits_value (c # cs) acc =
     (case digit_of c of None \<Rightarrow> None | Some d \<Rightarrow> digits_value cs (10 * acc + d))"

definition exampleParseFloat :: "string \<Rightarrow> f64 \<times> parse_error option" where
  "exampleParseFloat s =
     (if s = ''NaN'' then (NaN, None)
      else
        (let neg = (s \<noteq> [] \<and> hd s = CHR ''-'');
             ds = (if s \<noteq> [] \<and> (hd s = CHR ''-'' \<or> hd s = CHR ''+'') then tl s else s)
         in if ds = [] then (Fin 0, Some ErrSyntax)
            else case digits_value ds 0 of
                None \<Rightarrow> (Fin 0, Some ErrSyntax)
              | Some n \<Rightarrow>
                  (let r = round64 (if neg then - of_nat n else of_nat n)
                   in (r, if r = PInf \<or> r = NInf then Some ErrRange else None))))"


text \<open>
  The environment of the examples: the key of the surcharge metric as the SDK defines it,
  no rounding, and the surcharge on or off.
\<close>

definition exampleEnv :: "bool \<Rightarrow> env" where
  "exampleEnv support =
     \<lparr>ParseFloat = exampleParseFloat, MetricNetAmortizedCost = ''NET_AMORTIZED_COST'',
      cost_round = False, support_cost = support, account_type = BusinessAccount\<rparr>"

text \<open>
  A metric map with the one entry \<open>name\<close>; a period of a day whose total is under the key
  that the surcharge reads; and a period whose total is under \<^verbatim>\<open>UnblendedCost\<close>, the one
  metric that the comments of \<^verbatim>\<open>aggregationForAWS\<close> expect in the map.
\<close>

definition exampleMetric :: "string \<Rightarrow> string \<Rightarrow> (string \<times> MetricValue) list" where
  "exampleMetric name amount = [(name, \<lparr>MetricValue.Amount = Some amount, Unit = Some ''USD''\<rparr>)]"

definition examplePeriod :: "string \<Rightarrow> string \<Rightarrow> ResultByTime" where
  "examplePeriod day amount =
     \<lparr>Estimated = False, Groups = [],
      TimePeriod = Some \<lparr>Start = Some day, End = None\<rparr>,
      Total = exampleMetric ''NET_AMORTIZED_COST'' amount\<rparr>"

definition exampleUnblendedPeriod :: "string \<Rightarrow> string \<Rightarrow> ResultByTime" where
  "exampleUnblendedPeriod day amount =
     \<lparr>Estimated = False, Groups = [],
      TimePeriod = Some \<lparr>Start = Some day, End = None\<rparr>,
      Total = exampleMetric ''UnblendedCost'' amount\<rparr>"

text \<open>A group with one key and one metric, and a period of a grouped query.\<close>

definition exampleGroup :: "string \<Rightarrow> string \<Rightarrow> Group" where
  "exampleGroup key amount = \<lparr>Keys = [key], Metrics = exampleMetric ''UnblendedCost'' amount\<rparr>"

definition exampleGroupedPeriod :: "string \<Rightarrow> Group list \<Rightarrow> ResultByTime" where
  "exampleGroupedPeriod day groups =
     \<lparr>Estimated = False, Groups = groups,
      TimePeriod = Some \<lparr>Start = Some day, End = None\<rparr>, Total = []\<rparr>"

section \<open>Properties\<close>

subsection \<open>Rounding to binary64\<close>

lemma round_even_nearest: "\<bar>x - of_int (round_even x)\<bar> \<le> 1/2"
proof -
  define f where "f = \<lfloor>x\<rfloor>"
  define d where "d = x - of_int f"
  have d: "0 \<le> d" "d < 1"
    unfolding d_def f_def by linarith+
  have x: "x = of_int f + d"
    by (simp add: d_def)
  have r: "round_even x =
      (if d < 1/2 then f else if 1/2 < d then f + 1 else if even f then f else f + 1)"
    by (simp add: round_even_def Let_def f_def d_def)
  show ?thesis
    unfolding r using d
    by (cases "d < 1/2"; cases "1/2 < d"; cases "even f"; simp add: x abs_if; linarith)
qed

lemma round_even_tie:
  "x - of_int \<lfloor>x\<rfloor> = 1/2 \<Longrightarrow> even (round_even x)"
  by (simp add: round_even_def Let_def)

lemma bitlen_powi_bounds:
  fixes p :: int
  assumes "0 < p"
  shows "(2::rat) powi (bitlen p - 1) \<le> of_int p" and "of_int p < (2::rat) powi bitlen p"
proof -
  from bitlen_bounds [OF assms]
  have lo: "2 ^ nat (bitlen p - 1) \<le> p" and hi: "p < 2 ^ nat (bitlen p)" by simp_all
  have b: "1 \<le> bitlen p" using assms by (simp add: bitlen_alt_def)
  have "(2::rat) powi (bitlen p - 1) = 2 ^ nat (bitlen p - 1)"
    using b by (simp add: power_int_def)
  also have "\<dots> = of_int (2 ^ nat (bitlen p - 1))" by simp
  also have "\<dots> \<le> of_int p" using lo by (simp only: of_int_le_iff)
  finally show "(2::rat) powi (bitlen p - 1) \<le> of_int p" .
  have "(of_int p :: rat) < of_int (2 ^ nat (bitlen p))" using hi by (simp only: of_int_less_iff)
  also have "\<dots> = 2 ^ nat (bitlen p)" by simp
  also have "\<dots> = (2::rat) powi bitlen p"
    using b by (simp add: power_int_def)
  finally show "of_int p < (2::rat) powi bitlen p" .
qed

lemma ilog2_bounds:
  assumes "0 < a"
  shows "2 powi (ilog2 a) \<le> a \<and> a < 2 powi (ilog2 a + 1)"
proof -
  obtain p q where pq: "quotient_of a = (p, q)" by (cases "quotient_of a")
  then have q: "0 < q" and a: "a = of_int p / of_int q"
    by (simp_all add: quotient_of_denom_pos quotient_of_div)
  from assms a q have p: "0 < p" by (simp add: zero_less_divide_iff)
  define e where "e = bitlen p - bitlen q"
  note bp = bitlen_powi_bounds [OF p] and bq = bitlen_powi_bounds [OF q]
  have qr: "(0::rat) < of_int q" using q by simp
  have pos: "(0::rat) < 2 powi n" for n by (simp add: zero_less_power_int)
  have up: "a < 2 powi (e + 1)"
  proof -
    have "a < 2 powi bitlen p / of_int q"
      unfolding a using bp(2) qr by (simp add: divide_strict_right_mono)
    also have "\<dots> \<le> 2 powi bitlen p / 2 powi (bitlen q - 1)"
      using bq(1) pos qr by (intro divide_left_mono mult_pos_pos) simp_all
    also have "\<dots> = 2 powi (bitlen p - (bitlen q - 1))"
      by (subst power_int_diff) simp_all
    also have "bitlen p - (bitlen q - 1) = e + 1"
      by (simp add: e_def)
    finally show ?thesis .
  qed
  have low: "2 powi (e - 1) \<le> a"
  proof -
    have "e - 1 = bitlen p - 1 - bitlen q"
      by (simp add: e_def)
    then have "(2::rat) powi (e - 1) = 2 powi (bitlen p - 1 - bitlen q)"
      by (simp only:)
    also have "\<dots> = 2 powi (bitlen p - 1) / 2 powi bitlen q"
      by (subst power_int_diff) simp_all
    also have "\<dots> \<le> of_int p / 2 powi bitlen q"
      using bp(1) by (intro divide_right_mono) simp_all
    also have "\<dots> \<le> of_int p / of_int q"
      using bq(2) p qr pos by (intro divide_left_mono mult_pos_pos) simp_all
    finally show ?thesis by (simp add: a)
  qed
  show ?thesis
    using up low by (simp add: ilog2_def pq e_def [symmetric] Let_def not_le)
qed

text \<open>
  A finite result of \<open>round64\<close> is a binary64 number next to the exact value: a multiple
  \<open>m * 2^(e - 52)\<close> of the spacing at the exponent \<open>e\<close> of the exact value, with a
  significand of at most 53 bits (\<open>m = 2^53\<close> is the power of two above), at most half a
  spacing away from the exact value.
\<close>

lemma round64_nearest:
  assumes "x \<noteq> 0" and "round64 x = Fin y"
  shows "\<exists>m e. e = max (ilog2 \<bar>x\<bar>) (- 1022) \<and> e \<le> 1023 \<and>
           y = of_int m * 2 powi (e - 52) \<and> \<bar>m\<bar> \<le> 2 ^ 53 \<and>
           \<bar>x - y\<bar> \<le> 2 powi (e - 53)"
proof -
  define a where "a = \<bar>x\<bar>"
  define e where "e = max (ilog2 a) (- 1022)"
  define q :: rat where "q = 2 powi (e - 52)"
  define m where "m = round_even (a / q)"
  have a: "0 < a" using assms(1) by (simp add: a_def)
  have q: "0 < q" by (simp add: q_def zero_less_power_int)
  have r: "round64 x =
      (if 1023 < e \<or> (e = 1023 \<and> 2 ^ 53 \<le> m) then (if 0 < x then PInf else NInf)
       else Fin (if 0 < x then of_int m * q else - (of_int m * q)))"
    unfolding round64_def Let_def a_def e_def q_def m_def
    by (simp only: if_not_P [OF assms(1)])
  from assms(2) have e: "e \<le> 1023"
    and y: "y = (if 0 < x then of_int m * q else - (of_int m * q))"
    unfolding r by (auto split: if_splits)
  have near: "\<bar>a / q - of_int m\<bar> \<le> 1/2"
    unfolding m_def by (rule round_even_nearest)
  have "(a / q - of_int m) * q = a - of_int m * q"
    using q by (simp add: field_simps)
  then have "\<bar>a - of_int m * q\<bar> = \<bar>(a / q - of_int m) * q\<bar>"
    by simp
  also have "\<dots> = \<bar>a / q - of_int m\<bar> * q"
    using q by (simp add: abs_mult)
  also have "\<dots> \<le> 1/2 * q"
    using near q by (intro mult_right_mono) simp_all
  also have "\<dots> = 2 powi (e - 53)"
  proof -
    have "e - 52 = (e - 53) + 1" by simp
    then have "q = 2 powi ((e - 53) + 1)" by (simp only: q_def)
    also have "\<dots> = 2 powi (e - 53) * 2" by (subst power_int_add) simp_all
    finally show ?thesis by simp
  qed
  finally have err: "\<bar>a - of_int m * q\<bar> \<le> 2 powi (e - 53)" .
  have "\<bar>x - y\<bar> = \<bar>a - of_int m * q\<bar>"
  proof (cases "0 < x")
    case True
    then show ?thesis by (simp add: y a_def)
  next
    case False
    then have "x - y = - (a - of_int m * q)" by (simp add: y a_def)
    then show ?thesis by (simp only: abs_minus_cancel)
  qed
  with err have dist: "\<bar>x - y\<bar> \<le> 2 powi (e - 53)" by simp
  have "a < 2 powi (ilog2 a + 1)" using ilog2_bounds [OF a] by simp
  also have "\<dots> \<le> 2 powi (e + 1)"
    by (intro power_int_increasing) (simp_all add: e_def)
  finally have "a / q < 2 powi (e + 1) / q"
    using q by (simp add: divide_strict_right_mono)
  also have "\<dots> = 2 powi (e + 1 - (e - 52))"
    unfolding q_def by (subst power_int_diff) simp_all
  also have "\<dots> = 2 ^ 53" by simp
  finally have lt: "a / q < 2 ^ 53" .
  from near have n1: "of_int m - a / q \<le> 1/2" and n2: "a / q - of_int m \<le> 1/2"
    by linarith+
  have "(of_int m :: rat) < 2 ^ 53 + 1"
    using lt n1 by linarith
  also have "\<dots> = of_int (2 ^ 53 + 1)" by simp
  finally have hi: "m \<le> 2 ^ 53" by (simp only: of_int_less_iff)
  have "0 < a / q" using a q by simp
  with n2 have "(- 1 :: rat) < of_int m" by linarith
  also have "(- 1 :: rat) = of_int (- 1)" by simp
  finally have lo: "0 \<le> m" by (simp only: of_int_less_iff)
  have m: "\<bar>m\<bar> \<le> 2 ^ 53" using lo hi by simp
  have "y = of_int (if 0 < x then m else - m) * q"
    by (simp add: y)
  moreover have "\<bar>if 0 < x then m else - m\<bar> \<le> 2 ^ 53"
    using m by simp
  ultimately show ?thesis
    using e dist unfolding q_def e_def a_def by blast
qed

subsection \<open>Evaluation of the examples\<close>

lemma digit_of_digits:
  "digit_of CHR ''0'' = Some 0" "digit_of CHR ''1'' = Some 1" "digit_of CHR ''2'' = Some 2"
  "digit_of CHR ''3'' = Some 3" "digit_of CHR ''4'' = Some 4" "digit_of CHR ''5'' = Some 5"
  "digit_of CHR ''6'' = Some 6" "digit_of CHR ''7'' = Some 7" "digit_of CHR ''8'' = Some 8"
  "digit_of CHR ''9'' = Some 9" "digit_of CHR ''a'' = None"
  by (simp_all add: digit_of_def)

lemma round64_zero: "round64 0 = Fin 0"
  by (simp add: round64_def)

lemma round64_small_integers:
  "round64 1 = Fin 1" "round64 2 = Fin 2" "round64 5 = Fin 5" "round64 10 = Fin 10"
  "round64 100 = Fin 100" "round64 500 = Fin 500" "round64 5000 = Fin 5000"
  "round64 9999 = Fin 9999" "round64 10000 = Fin 10000" "round64 50000 = Fin 50000"
  "round64 (- 5) = Fin (- 5)"
  by code_simp+

lemma exampleParseFloat_values:
  "exampleParseFloat ''500'' = (Fin 500, None)"
  "exampleParseFloat ''5000'' = (Fin 5000, None)"
  "exampleParseFloat ''9999'' = (Fin 9999, None)"
  "exampleParseFloat ''10000'' = (Fin 10000, None)"
  "exampleParseFloat ''50000'' = (Fin 50000, None)"
  "exampleParseFloat ''10'' = (Fin 10, None)"
  "exampleParseFloat ''5'' = (Fin 5, None)"
  "exampleParseFloat ''0'' = (Fin 0, None)"
  "exampleParseFloat ''-5'' = (Fin (- 5), None)"
  "exampleParseFloat ''abc'' = (Fin 0, Some ErrSyntax)"
  by (simp_all add: exampleParseFloat_def digit_of_digits round64_small_integers round64_zero)

lemma BusinessAccount_profile:
  "MinSupportCost (AwsAccounts BusinessAccount) = Fin 100"
  "SupportCostThresholds (AwsAccounts BusinessAccount) =
     [threshold (10/100) 0 10000, threshold (7/100) 10000 80000,
      threshold (5/100) 80000 250000, threshold (3/100) 250000 0]"
  by (simp_all add: AwsAccounts_def BusinessAccount_def DeveloperAccount_def
      round64_small_integers)

lemma Business_floor_checks:
  "flt (fmul (Fin 50000) (CostMultiplier (threshold (10/100) 0 10000))) (Fin 100) = False"
  "flt (fmul (Fin 5000) (CostMultiplier (threshold (10/100) 0 10000))) (Fin 100) = False"
  "flt (fmul (Fin 10000) (CostMultiplier (threshold (10/100) 0 10000))) (Fin 100) = False"
  "flt (fmul (Fin 9999) (CostMultiplier (threshold (10/100) 0 10000))) (Fin 100) = False"
  "flt (fmul (Fin 500) (CostMultiplier (threshold (10/100) 0 10000))) (Fin 100) = True"
  "flt (fmul (Fin 0) (CostMultiplier (threshold (10/100) 0 10000))) (Fin 100) = True"
  by code_simp+

lemma Business_walks:
  "costThresholds (Fin 50000)
     [threshold (10/100) 0 10000, threshold (7/100) 10000 80000,
      threshold (5/100) 80000 250000, threshold (3/100) 250000 0] (Fin 0)
   = Fin (3800 + 1 / 2 ^ 41)"
  "costThresholds (Fin 5000)
     [threshold (10/100) 0 10000, threshold (7/100) 10000 80000,
      threshold (5/100) 80000 250000, threshold (3/100) 250000 0] (Fin 0)
   = Fin 500"
  "costThresholds (Fin 10000)
     [threshold (10/100) 0 10000, threshold (7/100) 10000 80000,
      threshold (5/100) 80000 250000, threshold (3/100) 250000 0] (Fin 0)
   = Fin 0"
  "costThresholds (Fin 9999)
     [threshold (10/100) 0 10000, threshold (7/100) 10000 80000,
      threshold (5/100) 80000 250000, threshold (3/100) 250000 0] (Fin 0)
   = Fin (2198803353226445 / 2199023255552)"
  by code_simp+

text \<open>The surcharge of the Business profile, from the sum of the period amounts.\<close>

lemma Business_surcharge_of_sum:
  assumes "sumDateAggregationAmounts ev results (Fin 0) = Inr x"
    and "flt (fmul x (CostMultiplier (threshold (10/100) 0 10000))) (Fin 100) = False"
  shows "SupportCostForAWS ev (AwsAccounts BusinessAccount) results =
     Inr (costThresholds x
            [threshold (10/100) 0 10000, threshold (7/100) 10000 80000,
             threshold (5/100) 80000 250000, threshold (3/100) 250000 0] (Fin 0), None)"
  using assms by (simp add: SupportCostForAWS_def BusinessAccount_profile)

lemma sum_examplePeriod:
  "sumDateAggregationAmounts (exampleEnv b) [examplePeriod d a] (Fin 0)
     = Inr (fadd (Fin 0) (fst (exampleParseFloat a)))"
  by (simp add: examplePeriod_def exampleMetric_def exampleEnv_def)

lemma sum_examplePeriod_values:
  "sumDateAggregationAmounts (exampleEnv b) [examplePeriod d ''500''] (Fin 0) = Inr (Fin 500)"
  "sumDateAggregationAmounts (exampleEnv b) [examplePeriod d ''5000''] (Fin 0) = Inr (Fin 5000)"
  "sumDateAggregationAmounts (exampleEnv b) [examplePeriod d ''9999''] (Fin 0) = Inr (Fin 9999)"
  "sumDateAggregationAmounts (exampleEnv b) [examplePeriod d ''10000''] (Fin 0) = Inr (Fin 10000)"
  "sumDateAggregationAmounts (exampleEnv b) [examplePeriod d ''50000''] (Fin 0) = Inr (Fin 50000)"
  unfolding sum_examplePeriod
  by (simp_all add: exampleParseFloat_values round64_small_integers)

subsection \<open>The surcharge\<close>

text \<open>
  C1, as the program computes it. With the Business brackets and the minimum 100, a sum of
  50000 gives the binary64 result of \<open>10000 * 0.10 + 40000 * 0.07\<close>, which is
  \<open>3800 + 2^-41\<close> (printed 3800.0000000000005): the product \<open>40000 * 0.07\<close> is not
  representable and rounds up. A sum of 5000 gives exactly 500.
\<close>

theorem SupportCostForAWS_Business_examples:
  "(sumDateAggregationAmounts ev results (Fin 0) = Inr (Fin 50000) \<longrightarrow>
      SupportCostForAWS ev (AwsAccounts BusinessAccount) results
        = Inr (Fin (3800 + 1 / 2 ^ 41), None)) \<and>
   (sumDateAggregationAmounts ev results (Fin 0) = Inr (Fin 5000) \<longrightarrow>
      SupportCostForAWS ev (AwsAccounts BusinessAccount) results = Inr (Fin 500, None))"
proof (intro conjI impI)
  assume s: "sumDateAggregationAmounts ev results (Fin 0) = Inr (Fin 50000)"
  show "SupportCostForAWS ev (AwsAccounts BusinessAccount) results
          = Inr (Fin (3800 + 1 / 2 ^ 41), None)"
    using Business_surcharge_of_sum [OF s Business_floor_checks(1)]
    by (simp only: Business_walks)
next
  assume s: "sumDateAggregationAmounts ev results (Fin 0) = Inr (Fin 5000)"
  show "SupportCostForAWS ev (AwsAccounts BusinessAccount) results = Inr (Fin 500, None)"
    using Business_surcharge_of_sum [OF s Business_floor_checks(2)]
    by (simp only: Business_walks)
qed

theorem SupportCostForAWS_Business_examples_witness:
  "sumDateAggregationAmounts (exampleEnv True) [examplePeriod ''2021-01-01'' ''50000''] (Fin 0)
     = Inr (Fin 50000) \<and>
   SupportCostForAWS (exampleEnv True) (AwsAccounts BusinessAccount)
     [examplePeriod ''2021-01-01'' ''50000''] = Inr (Fin (3800 + 1 / 2 ^ 41), None) \<and>
   sumDateAggregationAmounts (exampleEnv True) [examplePeriod ''2021-01-01'' ''5000''] (Fin 0)
     = Inr (Fin 5000) \<and>
   SupportCostForAWS (exampleEnv True) (AwsAccounts BusinessAccount)
     [examplePeriod ''2021-01-01'' ''5000''] = Inr (Fin 500, None)"
  using SupportCostForAWS_Business_examples
          [of "exampleEnv True" "[examplePeriod ''2021-01-01'' ''50000'']"]
        SupportCostForAWS_Business_examples
          [of "exampleEnv True" "[examplePeriod ''2021-01-01'' ''5000'']"]
  by (simp only: sum_examplePeriod_values simp_thms)

text \<open>C1 as stated fails: the surcharge for the sum 50000 is not exactly 3800.\<close>

theorem SupportCostForAWS_Business_50000_not_3800:
  "SupportCostForAWS (exampleEnv True) (AwsAccounts BusinessAccount)
     [examplePeriod ''2021-01-01'' ''50000''] \<noteq> Inr (Fin 3800, None)"
proof -
  have "SupportCostForAWS (exampleEnv True) (AwsAccounts BusinessAccount)
     [examplePeriod ''2021-01-01'' ''50000''] = Inr (Fin (3800 + 1 / 2 ^ 41), None)"
    using Business_surcharge_of_sum [OF sum_examplePeriod_values(5) Business_floor_checks(1)]
    by (simp only: Business_walks)
  then show ?thesis by simp
qed

text \<open>
  C2 fails at a bracket boundary. A bracket whose upper bound equals the sum is passed
  over: neither of the two comparisons with \<open>CostEndInterval\<close> holds, and nothing is added.
  With the Business profile the surcharge for the sum 9999 is about 999.9, and for the sum
  10000 it is 0.
\<close>

theorem SupportCostForAWS_drops_at_boundary:
  "SupportCostForAWS (exampleEnv True) (AwsAccounts BusinessAccount)
     [examplePeriod ''2021-01-01'' ''9999'']
     = Inr (Fin (2198803353226445 / 2199023255552), None) \<and>
   SupportCostForAWS (exampleEnv True) (AwsAccounts BusinessAccount)
     [examplePeriod ''2021-01-01'' ''10000''] = Inr (Fin 0, None)"
  using Business_surcharge_of_sum [OF sum_examplePeriod_values(3) Business_floor_checks(4)]
    Business_surcharge_of_sum [OF sum_examplePeriod_values(4) Business_floor_checks(3)]
  by (simp only: Business_walks simp_thms)

text \<open>
  C3: when the sum times the rate of the first bracket is below the minimum, the result is
  the minimum, whatever the brackets are.
\<close>

theorem SupportCostForAWS_floor:
  assumes "sumDateAggregationAmounts ev results (Fin 0) = Inr x"
    and "SupportCostThresholds account = t # ts"
    and "flt (fmul x (CostMultiplier t)) (MinSupportCost account)"
  shows "SupportCostForAWS ev account results = Inr (MinSupportCost account, None)"
  using assms by (simp add: SupportCostForAWS_def)

theorem SupportCostForAWS_floor_witness:
  "sumDateAggregationAmounts (exampleEnv True) [examplePeriod ''2021-01-01'' ''500''] (Fin 0)
     = Inr (Fin 500) \<and>
   SupportCostThresholds (AwsAccounts BusinessAccount) =
     threshold (10/100) 0 10000 #
       [threshold (7/100) 10000 80000, threshold (5/100) 80000 250000,
        threshold (3/100) 250000 0] \<and>
   flt (fmul (Fin 500) (CostMultiplier (threshold (10/100) 0 10000)))
     (MinSupportCost (AwsAccounts BusinessAccount)) \<and>
   SupportCostForAWS (exampleEnv True) (AwsAccounts BusinessAccount)
     [examplePeriod ''2021-01-01'' ''500''] = Inr (Fin 100, None)"
proof -
  have f: "flt (fmul (Fin 500) (CostMultiplier (threshold (10/100) 0 10000)))
     (MinSupportCost (AwsAccounts BusinessAccount))"
    by (simp only: BusinessAccount_profile Business_floor_checks)
  show ?thesis
    using SupportCostForAWS_floor [OF sum_examplePeriod_values(1) BusinessAccount_profile(2) f] f
    by (simp only: BusinessAccount_profile sum_examplePeriod_values simp_thms)
qed

subsection \<open>The date series\<close>

lemma getAwsMetricAmount_amountOf:
  "MetricValue.Amount metric \<noteq> None \<Longrightarrow> getAwsMetricAmount ev metric = Inr (amountOf ev metric)"
  by (auto simp: amountOf_def getAwsMetricAmount_def Let_def)

lemma totalMetrics_hasAmounts:
  "hasAmounts metrics \<Longrightarrow>
   totalMetrics ev s n metrics a =
     Inr (if metrics = [] then a
          else fadd (costMetricAmount ev metrics) (fdiv s (float64_of_len n)))"
proof (induction metrics arbitrary: a)
  case Nil
  then show ?case by simp
next
  case (Cons m metrics)
  obtain name metric where m: "m = (name, metric)" by (cases m)
  from Cons.prems have amt: "MetricValue.Amount metric \<noteq> None" and rest: "hasAmounts metrics"
    by (simp_all add: hasAmounts_def m)
  show ?case
    using Cons.IH [OF rest] getAwsMetricAmount_amountOf [OF amt]
    by (simp add: m costMetricAmount_def)
qed

text \<open>The value a period leaves in \<^verbatim>\<open>value.Amount\<close>: no share is added when the map is empty.\<close>

lemma dateAggregations_wellformed:
  assumes "list_all (\<lambda>r. hasStart r \<and> hasAmounts (Total r)) results"
  shows "dateAggregations ev s n results ret =
     Inr (ret @
       map (\<lambda>r. \<lparr>Date = startOf r,
                  Amount = (if Total r = [] then Fin 0 else periodAmount ev s n r)\<rparr>)
         (filter (\<lambda>r. fgt (if Total r = [] then Fin 0 else periodAmount ev s n r) (Fin 0))
            results))"
  using assms
proof (induction results arbitrary: ret)
  case Nil
  then show ?case by simp
next
  case (Cons r results)
  from Cons.prems have st: "hasStart r" and am: "hasAmounts (Total r)"
    and rest: "list_all (\<lambda>r. hasStart r \<and> hasAmounts (Total r)) results"
    by simp_all
  from st obtain tp d where tp: "TimePeriod r = Some tp" and d: "Start tp = Some d"
    by (auto simp: hasStart_def split: option.splits)
  have date: "startOf r = d" by (simp add: startOf_def tp d)
  show ?case
    by (simp add: tp d date totalMetrics_hasAmounts [OF am] Cons.IH [OF rest] periodAmount_def)
qed

lemma dateAggregations_series:
  assumes "list_all (\<lambda>r. hasStart r \<and> hasAmounts (Total r) \<and> Total r \<noteq> []) results"
  shows "dateAggregations ev s n results [] =
     Inr (map (\<lambda>r. \<lparr>Date = startOf r, Amount = periodAmount ev s n r\<rparr>)
            (filter (\<lambda>r. fgt (periodAmount ev s n r) (Fin 0)) results))"
proof -
  have wf: "list_all (\<lambda>r. hasStart r \<and> hasAmounts (Total r)) results"
    using assms by (simp add: list_all_iff)
  have ne: "\<forall>r \<in> set results. Total r \<noteq> []"
    using assms by (simp add: list_all_iff)
  have "filter (\<lambda>r. fgt (if Total r = [] then Fin 0 else periodAmount ev s n r) (Fin 0)) results
      = filter (\<lambda>r. fgt (periodAmount ev s n r) (Fin 0)) results"
    using ne by (intro filter_cong) auto
  moreover have "map (\<lambda>r. \<lparr>Date = startOf r,
                  Amount = (if Total r = [] then Fin 0 else periodAmount ev s n r)\<rparr>)
         (filter (\<lambda>r. fgt (periodAmount ev s n r) (Fin 0)) results)
      = map (\<lambda>r. \<lparr>Date = startOf r, Amount = periodAmount ev s n r\<rparr>)
         (filter (\<lambda>r. fgt (periodAmount ev s n r) (Fin 0)) results)"
    using ne by (intro map_cong) auto
  ultimately show ?thesis
    by (simp add: dateAggregations_wellformed [OF wf])
qed

lemma aggregationForAWS_dateSeries:
  assumes "list_all (\<lambda>r. hasStart r \<and> hasAmounts (Total r) \<and> Total r \<noteq> []) results"
    and "supCostOf ev results = Inr s"
  shows "aggregationForAWS ev results = Inr (dateSeries ev s results, None)"
  using assms(2)
  by (simp add: aggregationForAWS_def dateSeries_def dateAggregations_series [OF assms(1)])

text \<open>
  C4: over periods that have a start date and a non-empty metric map with amounts, and
  with the surcharge \<open>s\<close> (zero when \<^verbatim>\<open>support.cost\<close> is off), the result is the date series:
  in the order of the periods, the point of a period with the cost metric amount plus
  \<open>s / n\<close>, present exactly when that amount is greater than zero.
\<close>

theorem aggregationForAWS_series:
  assumes "list_all (\<lambda>r. hasStart r \<and> hasAmounts (Total r) \<and> Total r \<noteq> []) results"
    and "supCostOf ev results = Inr s"
  shows "aggregationForAWS ev results =
           Inr (map (\<lambda>r. \<lparr>Date = startOf r,
                           Amount = fadd (costMetricAmount ev (Total r))
                                      (fdiv s (float64_of_len (length results)))\<rparr>)
                  (filter (\<lambda>r. fgt (fadd (costMetricAmount ev (Total r))
                                      (fdiv s (float64_of_len (length results)))) (Fin 0))
                     results), None)
         \<and> (support_cost ev \<or> s = Fin 0)"
proof -
  have "support_cost ev \<or> s = Fin 0"
    using assms(2) by (auto simp: supCostOf_def split: if_splits)
  then show ?thesis
    using aggregationForAWS_dateSeries [OF assms]
    by (simp add: dateSeries_def periodAmount_def)
qed

lemma examplePeriod_facts:
  "hasStart (examplePeriod d a)"
  "hasAmounts (Total (examplePeriod d a))"
  "Total (examplePeriod d a) \<noteq> []"
  "hasNetAmortizedCost (exampleEnv b) (examplePeriod d a)"
  "startOf (examplePeriod d a) = d"
  "costMetricAmount (exampleEnv b) (Total (examplePeriod d a)) = fst (exampleParseFloat a)"
  by (simp_all add: examplePeriod_def exampleMetric_def exampleEnv_def hasStart_def
      hasAmounts_def hasNetAmortizedCost_def startOf_def costMetricAmount_def amountOf_def
      getAwsMetricAmount_def)

lemma float64_of_len_values:
  "float64_of_len (Suc 0) = Fin 1" "float64_of_len (Suc (Suc 0)) = Fin 2"
  by (simp_all add: float64_of_len_def round64_small_integers)

lemma float_example_values:
  "fdiv (Fin 0) (Fin 1) = Fin 0" "fdiv (Fin 0) (Fin 2) = Fin 0" 
  "fdiv (Fin 500) (Fin 2) = Fin 250"
  "fadd (Fin 0) (Fin 0) = Fin 0" "fadd (Fin 10) (Fin 0) = Fin 10"
  "fadd (Fin (- 5)) (Fin 0) = Fin (- 5)"
  "fadd (Fin 5000) (Fin 250) = Fin 5250" "fadd (Fin 0) (Fin 250) = Fin 250"
  "fadd (Fin 0) (Fin 5000) = Fin 5000" "fadd (Fin 5000) (Fin 0) = Fin 5000"
  by code_simp+

lemma supCostOf_example_off: "supCostOf (exampleEnv False) results = Inr (Fin 0)"
  by (simp add: supCostOf_def exampleEnv_def)

lemma supCostOf_example_on:
  "supCostOf (exampleEnv True)
     [examplePeriod ''2021-01-01'' ''5000'', examplePeriod ''2021-01-02'' ''0''] = Inr (Fin 500)"
proof -
  have "sumDateAggregationAmounts (exampleEnv True)
     [examplePeriod ''2021-01-01'' ''5000'', examplePeriod ''2021-01-02'' ''0''] (Fin 0)
     = Inr (Fin 5000)"
    by (simp add: examplePeriod_def exampleMetric_def exampleEnv_def exampleParseFloat_values
        float_example_values del: fadd.simps)
  from Business_surcharge_of_sum [OF this Business_floor_checks(2)]
  have "SupportCostForAWS (exampleEnv True) (AwsAccounts BusinessAccount)
     [examplePeriod ''2021-01-01'' ''5000'', examplePeriod ''2021-01-02'' ''0''] = Inr (Fin 500, None)"
    by (simp only: Business_walks)
  then show ?thesis
    by (simp add: supCostOf_def exampleEnv_def)
qed

theorem aggregationForAWS_series_witness:
  "list_all (\<lambda>r. hasStart r \<and> hasAmounts (Total r) \<and> Total r \<noteq> [])
     [examplePeriod ''2021-01-01'' ''5000'', examplePeriod ''2021-01-02'' ''0''] \<and>
   supCostOf (exampleEnv True)
     [examplePeriod ''2021-01-01'' ''5000'', examplePeriod ''2021-01-02'' ''0''] = Inr (Fin 500) \<and>
   aggregationForAWS (exampleEnv True)
     [examplePeriod ''2021-01-01'' ''5000'', examplePeriod ''2021-01-02'' ''0'']
     = Inr ([\<lparr>Date = ''2021-01-01'', Amount = Fin 5250\<rparr>,
             \<lparr>Date = ''2021-01-02'', Amount = Fin 250\<rparr>], None) \<and>
   supCostOf (exampleEnv False)
     [examplePeriod ''2021-01-01'' ''10'', examplePeriod ''2021-01-02'' ''-5''] = Inr (Fin 0) \<and>
   aggregationForAWS (exampleEnv False)
     [examplePeriod ''2021-01-01'' ''10'', examplePeriod ''2021-01-02'' ''-5'']
     = Inr ([\<lparr>Date = ''2021-01-01'', Amount = Fin 10\<rparr>], None)"
proof -
  have wf: "list_all (\<lambda>r. hasStart r \<and> hasAmounts (Total r) \<and> Total r \<noteq> [])
     [examplePeriod d1 a1, examplePeriod d2 a2]" for d1 a1 d2 a2
    by (simp add: examplePeriod_facts)
  show ?thesis
    using aggregationForAWS_series [OF wf supCostOf_example_on]
      aggregationForAWS_series [OF wf supCostOf_example_off,
        of "''2021-01-01''" "''10''" "''2021-01-02''" "''-5''"]
    by (simp add: wf supCostOf_example_on supCostOf_example_off examplePeriod_facts
        exampleParseFloat_values float64_of_len_values float_example_values fgt_def
        del: fadd.simps fdiv.simps)
qed

subsection \<open>The key index\<close>

lemma firstSeen_Nil: "firstSeen [] = []"
  by (simp add: firstSeen_def)

lemma firstSeen_Cons: "firstSeen (x # xs) = x # firstSeen (filter (\<lambda>y. y \<noteq> x) xs)"
proof -
  have "remdups (ys @ [x]) = remdups (filter (\<lambda>y. y \<noteq> x) ys) @ [x]" for ys
    by (induction ys) auto
  then show ?thesis
    by (simp add: firstSeen_def rev_filter)
qed

lemma distinct_firstSeen: "distinct (firstSeen xs)"
  by (simp add: firstSeen_def)

lemma set_firstSeen: "set (firstSeen xs) = set xs"
  by (simp add: firstSeen_def)

lemma length_firstSeen: "length (firstSeen xs) = card (set xs)"
  by (simp add: firstSeen_def length_remdups_card_conv)

lemma length_slots: "length (slots ks) = length ks"
  by (simp add: slots_def)

lemma map_of_slots_None: "map_of (slots ks) k = None \<longleftrightarrow> k \<notin> set ks"
  by (simp add: slots_def map_of_zip_is_None)

lemma slots_snoc: "slots ks @ [(k, length ks)] = slots (ks @ [k])"
  by (simp add: slots_def)

lemma addKey_slots:
  "addKey (slots ks) k = slots (if k \<in> set ks then ks else ks @ [k])"
  by (simp add: addKey_def map_of_slots_None length_slots slots_snoc)

lemma foldl_addKey_slots:
  "distinct ks \<Longrightarrow>
   foldl addKey (slots ks) xs = slots (ks @ firstSeen (filter (\<lambda>x. x \<notin> set ks) xs))"
proof (induction xs arbitrary: ks)
  case Nil
  then show ?case by (simp add: firstSeen_Nil)
next
  case (Cons x xs)
  show ?case
  proof (cases "x \<in> set ks")
    case True
    then show ?thesis using Cons.IH [OF Cons.prems] by (simp add: addKey_slots)
  next
    case False
    then have d: "distinct (ks @ [x])" using Cons.prems by simp
    have "filter (\<lambda>y. y \<noteq> x) (filter (\<lambda>x. x \<notin> set ks) xs)
        = filter (\<lambda>y. y \<notin> set (ks @ [x])) xs"
      by (auto intro: filter_cong)
    then show ?thesis
      using Cons.IH [OF d] False by (simp add: addKey_slots firstSeen_Cons)
  qed
qed

lemma keyIndexGroups_foldl:
  "list_all (\<lambda>grp. Keys grp \<noteq> []) groups \<Longrightarrow>
   keyIndexGroups groups keys = Inr (foldl addKey keys (map firstKey groups))"
proof (induction groups arbitrary: keys)
  case Nil
  then show ?case by simp
next
  case (Cons grp groups)
  then obtain k ks where k: "Keys grp = k # ks" by (cases "Keys grp") auto
  show ?case
    using Cons by (simp add: k firstKey_def addKey_def)
qed

lemma keyIndexResults_foldl:
  "list_all hasKeys results \<Longrightarrow>
   keyIndexResults results keys = Inr (foldl addKey keys (allKeys results))"
proof (induction results arbitrary: keys)
  case Nil
  then show ?case by (simp add: allKeys_def)
next
  case (Cons result results)
  then show ?case
    by (simp add: keyIndexGroups_foldl hasKeys_def allKeys_def)
qed

lemma getGroupedAwsKeyIndex_slots:
  "list_all hasKeys results \<Longrightarrow>
   getGroupedAwsKeyIndex results = Inr (slots (firstSeen (allKeys results)))"
  using foldl_addKey_slots [of "[]" "allKeys results"]
  by (simp add: getGroupedAwsKeyIndex_def keyIndexResults_foldl slots_def)

text \<open>
  C5: when every group has a first-level key, the index holds the distinct keys of the
  scan in the order of their first occurrences, with the slots \<open>0, 1, 2, ...\<close>: a key has
  one slot, the slots of two keys differ, and there are as many slots as distinct keys.
  The index is a function of the sequence, so that a second run returns the same index.
\<close>

theorem getGroupedAwsKeyIndex_first_seen:
  assumes "list_all hasKeys results"
  shows "getGroupedAwsKeyIndex results
           = Inr (zip (firstSeen (allKeys results)) [0..<card (set (allKeys results))]) \<and>
         distinct (firstSeen (allKeys results)) \<and>
         set (firstSeen (allKeys results)) = set (allKeys results) \<and>
         length (firstSeen (allKeys results)) = card (set (allKeys results))"
  using getGroupedAwsKeyIndex_slots [OF assms]
  by (simp add: slots_def distinct_firstSeen set_firstSeen length_firstSeen)

subsection \<open>Slices of pointers indexed by the slots\<close>

lemma map_update_distinct:
  assumes "distinct ks" and "i < length ks"
  shows "(map f ks)[i := v] = map (\<lambda>k. if k = ks ! i then v else f k) ks"
proof (rule nth_equalityI)
  show "length ((map f ks)[i := v]) = length (map (\<lambda>k. if k = ks ! i then v else f k) ks)"
    by simp
next
  fix j
  assume "j < length ((map f ks)[i := v])"
  then have j: "j < length ks" by simp
  show "(map f ks)[i := v] ! j = map (\<lambda>k. if k = ks ! i then v else f k) ks ! j"
    using assms j by (auto simp: nth_list_update nth_eq_iff_index_eq)
qed

lemma lookupIndex_slots:
  assumes "distinct ks" and "k \<in> set ks"
  shows "lookupIndex (slots ks) k < length ks \<and> ks ! lookupIndex (slots ks) k = k"
proof -
  from assms(2) obtain i where i: "i < length ks" and k: "ks ! i = k"
    by (auto simp: in_set_conv_nth)
  have "map_of (zip ks [0..<length ks]) (ks ! i) = Some ([0..<length ks] ! i)"
    using assms(1) i by (intro map_of_zip_nth) simp_all
  then have "lookupIndex (slots ks) k = i"
    using i k by (simp add: lookupIndex_def slots_def)
  then show ?thesis using i k by simp
qed

lemma in_slots: "(k, i) \<in> set (slots ks) \<longleftrightarrow> i < length ks \<and> ks ! i = k"
  by (auto simp: slots_def in_set_zip)

lemma set_range_order: "set (range_order cs xs) = set xs"
proof (induction cs arbitrary: xs)
  case Nil
  then show ?case by simp
next
  case (Cons c cs)
  show ?case
  proof (cases "xs = []")
    case True
    then show ?thesis by simp
  next
    case False
    define i where "i = c mod length xs"
    have i: "i < length xs" using False by (simp add: i_def)
    have "xs = take i xs @ xs ! i # drop (Suc i) xs"
      using i by (simp add: id_take_nth_drop)
    then have "set xs = insert (xs ! i) (set (take i xs @ drop (Suc i) xs))"
      by (metis Un_insert_right list.simps(15) set_append)
    then show ?thesis
      using False Cons.IH [of "take i xs @ drop (Suc i) xs"]
      by (simp add: Let_def i_def)
  qed
qed

lemma mset_range_order: "mset (range_order cs xs) = mset xs"
proof (induction cs arbitrary: xs)
  case Nil
  then show ?case by simp
next
  case (Cons c cs)
  show ?case
  proof (cases "xs = []")
    case True
    then show ?thesis by simp
  next
    case False
    define i where "i = c mod length xs"
    have i: "i < length xs" using False by (simp add: i_def)
    have "xs = take i xs @ xs ! i # drop (Suc i) xs"
      using i by (simp add: id_take_nth_drop)
    then have "mset xs = add_mset (xs ! i) (mset (take i xs @ drop (Suc i) xs))"
      by (metis mset.simps(2) mset_append union_mset_add_mset_right)
    then show ?thesis
      using False Cons.IH [of "take i xs @ drop (Suc i) xs"]
      by (simp add: Let_def i_def)
  qed
qed

subsection \<open>The grouped series\<close>

lemma groupMetrics_hasAmounts:
  "hasAmounts metrics \<Longrightarrow>
   groupMetrics ev metrics a = Inr (if metrics = [] then a else costMetricAmount ev metrics)"
proof (induction metrics arbitrary: a)
  case Nil
  then show ?case by simp
next
  case (Cons m metrics)
  obtain name metric where m: "m = (name, metric)" by (cases m)
  from Cons.prems have amt: "MetricValue.Amount metric \<noteq> None" and rest: "hasAmounts metrics"
    by (simp_all add: hasAmounts_def m)
  show ?case
    using Cons.IH [OF rest] getAwsMetricAmount_amountOf [OF amt]
    by (simp add: m costMetricAmount_def)
qed

lemma groupMetrics_costMetricAmount:
  "hasAmounts metrics \<Longrightarrow> groupMetrics ev metrics (Fin 0) = Inr (costMetricAmount ev metrics)"
  by (simp add: groupMetrics_hasAmounts costMetricAmount_def)

lemma initProductCosts_nth:
  assumes "set es \<subseteq> set (slots ks)" and "length costs = length ks"
  shows "\<exists>costs'. initProductCosts es costs = Inr costs' \<and> length costs' = length ks \<and>
           (\<forall>i<length ks. costs' ! i =
              (if (ks ! i, i) \<in> set es then Some \<lparr>ProductCost.Id = ks ! i, Aggregation = []\<rparr>
               else costs ! i))"
  using assms
proof (induction es arbitrary: costs)
  case Nil
  then show ?case by simp
next
  case (Cons e es)
  obtain k j where e: "e = (k, j)" by (cases e)
  from Cons.prems(1) have j: "j < length ks" and k: "ks ! j = k"
    by (simp_all add: e in_slots)
  let ?costs1 = "costs[j := Some \<lparr>ProductCost.Id = k, Aggregation = []\<rparr>]"
  from Cons.prems have "set es \<subseteq> set (slots ks)" and "length ?costs1 = length ks"
    by simp_all
  from Cons.IH [OF this] obtain costs' where
    run: "initProductCosts es ?costs1 = Inr costs'" and len: "length costs' = length ks"
    and nth: "\<forall>i<length ks. costs' ! i =
              (if (ks ! i, i) \<in> set es then Some \<lparr>ProductCost.Id = ks ! i, Aggregation = []\<rparr>
               else ?costs1 ! i)"
    by blast
  have "initProductCosts (e # es) costs = Inr costs'"
    using run j Cons.prems(2) by (simp add: e)
  moreover have "costs' ! i =
      (if (ks ! i, i) \<in> set (e # es) then Some \<lparr>ProductCost.Id = ks ! i, Aggregation = []\<rparr>
       else costs ! i)" if "i < length ks" for i
    using nth that k j Cons.prems(2) by (auto simp: e nth_list_update)
  ultimately show ?case using len by blast
qed

lemma initProductCosts_slots:
  assumes "set es = set (slots ks)"
  shows "initProductCosts es (replicate (length ks) None)
           = Inr (map (\<lambda>k. Some \<lparr>ProductCost.Id = k, Aggregation = []\<rparr>) ks)"
proof -
  from initProductCosts_nth [of es ks "replicate (length ks) None"] assms
  obtain costs' where run: "initProductCosts es (replicate (length ks) None) = Inr costs'"
    and len: "length costs' = length ks"
    and nth: "\<forall>i<length ks. costs' ! i =
              (if (ks ! i, i) \<in> set es then Some \<lparr>ProductCost.Id = ks ! i, Aggregation = []\<rparr>
               else replicate (length ks) None ! i)"
    by auto
  have "costs' = map (\<lambda>k. Some \<lparr>ProductCost.Id = k, Aggregation = []\<rparr>) ks"
  proof (rule nth_equalityI)
    show "length costs' = length (map (\<lambda>k. Some \<lparr>ProductCost.Id = k, Aggregation = []\<rparr>) ks)"
      using len by simp
  next
    fix i
    assume "i < length costs'"
    then have i: "i < length ks" using len by simp
    then have "(ks ! i, i) \<in> set es" by (simp add: assms in_slots)
    then show "costs' ! i = map (\<lambda>k. Some \<lparr>ProductCost.Id = k, Aggregation = []\<rparr>) ks ! i"
      using nth i by simp
  qed
  with run show ?thesis by simp
qed

lemma productGroups_points:
  assumes "distinct ks"
    and "list_all (\<lambda>grp. Keys grp \<noteq> [] \<and> firstKey grp \<in> set ks \<and> hasAmounts (Metrics grp)) groups"
    and "groups = [] \<or> hasStart result"
  shows "productGroups ev (slots ks) result groups
           (map (\<lambda>k. Some \<lparr>ProductCost.Id = k, Aggregation = acc k\<rparr>) ks)
         = Inr (map (\<lambda>k. Some \<lparr>ProductCost.Id = k, Aggregation = acc k @
                  map (\<lambda>grp. \<lparr>Date = startOf result,
                               Amount = costMetricAmount ev (Metrics grp)\<rparr>)
                    (filter (\<lambda>grp. firstKey grp = k \<and>
                                   fgt (costMetricAmount ev (Metrics grp)) (Fin 0)) groups)\<rparr>) ks)"
  using assms(2,3)
proof (induction groups arbitrary: acc)
  case Nil
  then show ?case by simp
next
  case (Cons grp groups)
  from Cons.prems(1) have keys: "Keys grp \<noteq> []" and mem: "firstKey grp \<in> set ks"
    and am: "hasAmounts (Metrics grp)"
    and rest: "list_all (\<lambda>grp. Keys grp \<noteq> [] \<and> firstKey grp \<in> set ks \<and> hasAmounts (Metrics grp)) groups"
    by simp_all
  from Cons.prems(2) have st: "hasStart result" by simp
  then obtain tp d where tp: "TimePeriod result = Some tp" and d: "Start tp = Some d"
    by (auto simp: hasStart_def split: option.splits)
  have date: "startOf result = d" by (simp add: startOf_def tp d)
  from keys obtain k0 rest_keys where k0: "Keys grp = k0 # rest_keys"
    by (cases "Keys grp") auto
  then have fk: "firstKey grp = k0" by (simp add: firstKey_def)
  define i where "i = lookupIndex (slots ks) k0"
  from lookupIndex_slots [OF assms(1), of k0] mem fk
  have i: "i < length ks" and ki: "ks ! i = k0" by (simp_all add: i_def)
  define a where "a = costMetricAmount ev (Metrics grp)"
  have gm: "groupMetrics ev (Metrics grp) (Fin 0) = Inr a"
    by (simp add: a_def groupMetrics_costMetricAmount [OF am])
  let ?costs = "map (\<lambda>k. Some \<lparr>ProductCost.Id = k, Aggregation = acc k\<rparr>) ks"
  have IH: "productGroups ev (slots ks) result groups
           (map (\<lambda>k. Some \<lparr>ProductCost.Id = k, Aggregation = acc' k\<rparr>) ks)
         = Inr (map (\<lambda>k. Some \<lparr>ProductCost.Id = k, Aggregation = acc' k @
                  map (\<lambda>grp. \<lparr>Date = startOf result,
                               Amount = costMetricAmount ev (Metrics grp)\<rparr>)
                    (filter (\<lambda>grp. firstKey grp = k \<and>
                                   fgt (costMetricAmount ev (Metrics grp)) (Fin 0)) groups)\<rparr>) ks)"
    for acc'
    using Cons.IH [OF rest] st by simp
  show ?case
  proof (cases "fgt a (Fin 0)")
    case False
    have "productGroups ev (slots ks) result (grp # groups) ?costs
        = productGroups ev (slots ks) result groups ?costs"
      using False i by (simp add: k0 i_def [symmetric] tp d gm)
    then show ?thesis
      using False by (simp add: IH a_def)
  next
    case True
    let ?acc' = "\<lambda>k. if k = k0 then acc k @ [\<lparr>Date = d, Amount = a\<rparr>] else acc k"
    have upd: "?costs[i := Some (\<lparr>ProductCost.Id = k0, Aggregation = acc k0\<rparr>
                 \<lparr>ProductCost.Aggregation := acc k0 @ [\<lparr>Date = d, Amount = a\<rparr>]\<rparr>)]
        = map (\<lambda>k. Some \<lparr>ProductCost.Id = k, Aggregation = ?acc' k\<rparr>) ks"
      unfolding map_update_distinct [OF assms(1) i] ki
      by (intro map_cong) auto
    have "productGroups ev (slots ks) result (grp # groups) ?costs
        = productGroups ev (slots ks) result groups
            (map (\<lambda>k. Some \<lparr>ProductCost.Id = k, Aggregation = ?acc' k\<rparr>) ks)"
      using True i ki upd by (simp add: k0 i_def [symmetric] tp d gm)
    also have "\<dots> = Inr (map (\<lambda>k. Some \<lparr>ProductCost.Id = k, Aggregation = ?acc' k @
                  map (\<lambda>grp. \<lparr>Date = startOf result,
                               Amount = costMetricAmount ev (Metrics grp)\<rparr>)
                    (filter (\<lambda>grp. firstKey grp = k \<and>
                                   fgt (costMetricAmount ev (Metrics grp)) (Fin 0)) groups)\<rparr>) ks)"
      by (rule IH)
    finally show ?thesis
      using True by (simp add: a_def [symmetric] fk date cong: map_cong)
  qed
qed

lemma productResults_series:
  assumes "distinct ks"
    and "list_all wfGrouped results"
    and "set (allKeys results) \<subseteq> set ks"
  shows "productResults ev (slots ks) results
           (map (\<lambda>k. Some \<lparr>ProductCost.Id = k, Aggregation = acc k\<rparr>) ks)
         = Inr (map (\<lambda>k. Some \<lparr>ProductCost.Id = k,
                                Aggregation = acc k @ seriesOf ev results k\<rparr>) ks)"
  using assms(2,3)
proof (induction results arbitrary: acc)
  case Nil
  then show ?case by (simp add: seriesOf_def)
next
  case (Cons result results)
  from Cons.prems(1) have wf: "wfGrouped result" and rest: "list_all wfGrouped results"
    by simp_all
  from Cons.prems(2) have here: "firstKey ` set (Groups result) \<subseteq> set ks"
    and later: "set (allKeys results) \<subseteq> set ks"
    by (simp_all add: allKeys_def)
  have groups: "list_all (\<lambda>grp. Keys grp \<noteq> [] \<and> firstKey grp \<in> set ks \<and> hasAmounts (Metrics grp))
      (Groups result)"
    using wf here by (auto simp: wfGrouped_def hasKeys_def list_all_iff)
  have start: "Groups result = [] \<or> hasStart result"
    using wf by (simp add: wfGrouped_def)
  show ?case
    using productGroups_points [OF assms(1) groups start, of ev acc]
      Cons.IH [OF rest later]
    by (simp add: seriesOf_def groupPoints_def)
qed

lemma filterProductCosts_slots:
  assumes "set es \<subseteq> set (slots ks)"
  shows "filterProductCosts es (map (\<lambda>k. Some (f k)) ks) filtered
         = Inr (filtered @ filter (\<lambda>cost. ProductCost.Aggregation cost \<noteq> [])
                             (map f (map fst es)))"
  using assms
proof (induction es arbitrary: filtered)
  case Nil
  then show ?case by simp
next
  case (Cons e es)
  obtain k j where e: "e = (k, j)" by (cases e)
  from Cons.prems have j: "j < length ks" and k: "ks ! j = k"
    and rest: "set es \<subseteq> set (slots ks)"
    by (simp_all add: e in_slots)
  show ?case
    using j k Cons.IH [OF rest] by (simp add: e)
qed

lemma getGroupedAwsProducts_groupedSeries:
  assumes "list_all wfGrouped results"
  shows "getGroupedAwsProducts ev sched1 sched2 results =
           Inr (groupedSeries ev results
                  (map fst (range_order sched2 (slots (firstSeen (allKeys results))))), None)"
proof -
  let ?ks = "firstSeen (allKeys results)"
  have keys: "list_all hasKeys results"
    using assms by (simp add: list_all_iff wfGrouped_def)
  have index: "getGroupedAwsKeyIndex results = Inr (slots ?ks)"
    by (rule getGroupedAwsKeyIndex_slots [OF keys])
  have init: "initProductCosts (range_order sched1 (slots ?ks)) (replicate (length ?ks) None)
      = Inr (map (\<lambda>k. Some \<lparr>ProductCost.Id = k, Aggregation = []\<rparr>) ?ks)"
    by (rule initProductCosts_slots) (simp add: set_range_order)
  have loop: "productResults ev (slots ?ks) results
      (map (\<lambda>k. Some \<lparr>ProductCost.Id = k, Aggregation = []\<rparr>) ?ks)
      = Inr (map (\<lambda>k. Some \<lparr>ProductCost.Id = k, Aggregation = [] @ seriesOf ev results k\<rparr>) ?ks)"
    by (rule productResults_series [OF distinct_firstSeen assms]) (simp add: set_firstSeen)
  have filt: "filterProductCosts (range_order sched2 (slots ?ks))
      (map (\<lambda>k. Some \<lparr>ProductCost.Id = k, Aggregation = seriesOf ev results k\<rparr>) ?ks) []
      = Inr ([] @ filter (\<lambda>cost. ProductCost.Aggregation cost \<noteq> [])
           (map (\<lambda>k. \<lparr>ProductCost.Id = k, Aggregation = seriesOf ev results k\<rparr>)
              (map fst (range_order sched2 (slots ?ks)))))"
    by (rule filterProductCosts_slots) (simp add: set_range_order)
  show ?thesis
    using index init loop filt
    by (simp add: getGroupedAwsProducts_def groupedSeries_def length_slots)
qed

lemma map_fst_slots: "map fst (slots ks) = ks"
  by (simp add: slots_def)

lemma mset_keys_range_order:
  "image_mset fst (mset (range_order sched (slots ks))) = mset ks"
proof -
  have "image_mset fst (mset (range_order sched (slots ks))) = image_mset fst (mset (slots ks))"
    by (simp add: mset_range_order)
  also have "\<dots> = mset (map fst (slots ks))"
    by simp
  also have "\<dots> = mset ks"
    by (simp only: map_fst_slots)
  finally show ?thesis .
qed

text \<open>
  C6, as the program computes it. Over periods of a grouped query without nil pointers,
  the result holds, for every discovered key whose series is not empty, the key with its
  series (per period, the points of the groups with this key whose amount is greater than
  zero, with the date of the period). The keys come in the order in which the last loop
  visits the map \<^verbatim>\<open>keys\<close>, which is a rearrangement of the order of the index; when the
  loop happens to visit the map in insertion order, it is the order of the index.
\<close>

theorem getGroupedAwsProducts_series:
  assumes "list_all wfGrouped results"
  shows "getGroupedAwsProducts ev sched1 sched2 results =
           Inr (groupedSeries ev results
                  (map fst (range_order sched2 (slots (firstSeen (allKeys results))))), None) \<and>
         mset (map fst (range_order sched2 (slots (firstSeen (allKeys results)))))
           = mset (firstSeen (allKeys results)) \<and>
         getGroupedAwsProducts ev sched1 [] results =
           Inr (groupedSeries ev results (firstSeen (allKeys results)), None)"
  using getGroupedAwsProducts_groupedSeries [OF assms, of ev sched1 sched2]
    getGroupedAwsProducts_groupedSeries [OF assms, of ev sched1 "[]"]
  by (simp add: mset_keys_range_order map_fst_slots)

lemma exampleGroup_facts:
  "Keys (exampleGroup k a) = [k]"
  "firstKey (exampleGroup k a) = k"
  "hasAmounts (Metrics (exampleGroup k a))"
  "costMetricAmount (exampleEnv b) (Metrics (exampleGroup k a)) = fst (exampleParseFloat a)"
  by (simp_all add: exampleGroup_def exampleMetric_def exampleEnv_def firstKey_def
      hasAmounts_def costMetricAmount_def amountOf_def getAwsMetricAmount_def)

lemma exampleGroupedPeriod_facts:
  "Groups (exampleGroupedPeriod d groups) = groups"
  "hasStart (exampleGroupedPeriod d groups)"
  "startOf (exampleGroupedPeriod d groups) = d"
  by (simp_all add: exampleGroupedPeriod_def hasStart_def startOf_def)

lemma wfGrouped_example:
  "wfGrouped (exampleGroupedPeriod d [])"
  "wfGrouped (exampleGroupedPeriod d [exampleGroup k1 a1])"
  "wfGrouped (exampleGroupedPeriod d [exampleGroup k1 a1, exampleGroup k2 a2])"
  "wfGrouped (exampleGroupedPeriod d [exampleGroup k1 a1, exampleGroup k2 a2, exampleGroup k3 a3])"
  by (simp_all add: wfGrouped_def hasKeys_def exampleGroupedPeriod_facts exampleGroup_facts)

lemma allKeys_example:
  "allKeys [exampleGroupedPeriod ''2021-01-01'' [exampleGroup ''EC2'' ''10'', exampleGroup ''S3'' ''5''],
            exampleGroupedPeriod ''2021-01-02''
              [exampleGroup ''S3'' ''5'', exampleGroup ''EC2'' ''-5'', exampleGroup ''RDS'' ''0'']]
   = [''EC2'', ''S3'', ''S3'', ''EC2'', ''RDS'']"
  by (simp add: allKeys_def exampleGroupedPeriod_facts exampleGroup_facts)

lemma firstSeen_example:
  "firstSeen [''EC2'', ''S3'', ''S3'', ''EC2'', ''RDS''] = [''EC2'', ''S3'', ''RDS'']"
  by (simp add: firstSeen_def)

theorem getGroupedAwsKeyIndex_first_seen_witness:
  "list_all hasKeys
     [exampleGroupedPeriod ''2021-01-01'' [exampleGroup ''EC2'' ''10'', exampleGroup ''S3'' ''5''],
      exampleGroupedPeriod ''2021-01-02''
        [exampleGroup ''S3'' ''5'', exampleGroup ''EC2'' ''-5'', exampleGroup ''RDS'' ''0'']] \<and>
   getGroupedAwsKeyIndex
     [exampleGroupedPeriod ''2021-01-01'' [exampleGroup ''EC2'' ''10'', exampleGroup ''S3'' ''5''],
      exampleGroupedPeriod ''2021-01-02''
        [exampleGroup ''S3'' ''5'', exampleGroup ''EC2'' ''-5'', exampleGroup ''RDS'' ''0'']]
     = Inr [(''EC2'', 0), (''S3'', 1), (''RDS'', 2)]"
proof -
  have wf: "list_all hasKeys
     [exampleGroupedPeriod ''2021-01-01'' [exampleGroup ''EC2'' ''10'', exampleGroup ''S3'' ''5''],
      exampleGroupedPeriod ''2021-01-02''
        [exampleGroup ''S3'' ''5'', exampleGroup ''EC2'' ''-5'', exampleGroup ''RDS'' ''0'']]"
    by (simp add: hasKeys_def exampleGroupedPeriod_facts exampleGroup_facts)
  have "[0..<card (set [''EC2'', ''S3'', ''S3'', ''EC2'', ''RDS''])]
      = [0..<length [''EC2'', ''S3'', ''RDS'']]"
    by (simp only: length_firstSeen [symmetric] firstSeen_example)
  also have "\<dots> = [0, 1, 2]"
    by (simp add: upt_rec)
  finally show ?thesis
    using getGroupedAwsKeyIndex_first_seen [OF wf] wf
    by (simp only: allKeys_example firstSeen_example zip.simps list.case simp_thms)
qed

lemma groupedSeries_example:
  "groupedSeries (exampleEnv False)
     [exampleGroupedPeriod ''2021-01-01'' [exampleGroup ''EC2'' ''10'', exampleGroup ''S3'' ''5''],
      exampleGroupedPeriod ''2021-01-02''
        [exampleGroup ''S3'' ''5'', exampleGroup ''EC2'' ''-5'', exampleGroup ''RDS'' ''0'']]
     ks
   = filter (\<lambda>cost. ProductCost.Aggregation cost \<noteq> [])
       (map (\<lambda>k. \<lparr>ProductCost.Id = k, Aggregation =
                  (if k = ''EC2'' then [\<lparr>Date = ''2021-01-01'', Amount = Fin 10\<rparr>] else []) @
                  (if k = ''S3'' then [\<lparr>Date = ''2021-01-01'', Amount = Fin 5\<rparr>,
                                       \<lparr>Date = ''2021-01-02'', Amount = Fin 5\<rparr>] else [])\<rparr>) ks)"
  by (auto simp: groupedSeries_def seriesOf_def groupPoints_def exampleGroupedPeriod_facts
      exampleGroup_facts exampleParseFloat_values fgt_def intro!: arg_cong [where f = "filter _"])

theorem getGroupedAwsProducts_series_witness:
  "list_all wfGrouped
     [exampleGroupedPeriod ''2021-01-01'' [exampleGroup ''EC2'' ''10'', exampleGroup ''S3'' ''5''],
      exampleGroupedPeriod ''2021-01-02''
        [exampleGroup ''S3'' ''5'', exampleGroup ''EC2'' ''-5'', exampleGroup ''RDS'' ''0'']] \<and>
   getGroupedAwsProducts (exampleEnv False) [] []
     [exampleGroupedPeriod ''2021-01-01'' [exampleGroup ''EC2'' ''10'', exampleGroup ''S3'' ''5''],
      exampleGroupedPeriod ''2021-01-02''
        [exampleGroup ''S3'' ''5'', exampleGroup ''EC2'' ''-5'', exampleGroup ''RDS'' ''0'']]
     = Inr ([\<lparr>ProductCost.Id = ''EC2'',
               Aggregation = [\<lparr>Date = ''2021-01-01'', Amount = Fin 10\<rparr>]\<rparr>,
             \<lparr>ProductCost.Id = ''S3'',
               Aggregation = [\<lparr>Date = ''2021-01-01'', Amount = Fin 5\<rparr>,
                              \<lparr>Date = ''2021-01-02'', Amount = Fin 5\<rparr>]\<rparr>], None)"
proof -
  have wf: "list_all wfGrouped
     [exampleGroupedPeriod ''2021-01-01'' [exampleGroup ''EC2'' ''10'', exampleGroup ''S3'' ''5''],
      exampleGroupedPeriod ''2021-01-02''
        [exampleGroup ''S3'' ''5'', exampleGroup ''EC2'' ''-5'', exampleGroup ''RDS'' ''0'']]"
    by (simp add: wfGrouped_example)
  show ?thesis
    using getGroupedAwsProducts_series
            [OF wf, of "exampleEnv False" "[]" "[]", THEN conjunct2, THEN conjunct2] wf
    by (simp add: groupedSeries_example allKeys_example firstSeen_example)
qed

text \<open>
  C6 as stated fails: with the keys EC2 and S3 discovered in this order, the last loop may
  visit the map \<^verbatim>\<open>keys\<close> at S3 first, and the series of S3 then comes before that of EC2.
\<close>

theorem getGroupedAwsProducts_not_in_index_order:
  "getGroupedAwsKeyIndex
     [exampleGroupedPeriod ''2021-01-01'' [exampleGroup ''EC2'' ''10'', exampleGroup ''S3'' ''5'']]
     = Inr [(''EC2'', 0), (''S3'', 1)] \<and>
   getGroupedAwsProducts (exampleEnv False) [] [1]
     [exampleGroupedPeriod ''2021-01-01'' [exampleGroup ''EC2'' ''10'', exampleGroup ''S3'' ''5'']]
     = Inr ([\<lparr>ProductCost.Id = ''S3'',
               Aggregation = [\<lparr>Date = ''2021-01-01'', Amount = Fin 5\<rparr>]\<rparr>,
             \<lparr>ProductCost.Id = ''EC2'',
               Aggregation = [\<lparr>Date = ''2021-01-01'', Amount = Fin 10\<rparr>]\<rparr>], None)"
proof -
  let ?results = "[exampleGroupedPeriod ''2021-01-01''
                     [exampleGroup ''EC2'' ''10'', exampleGroup ''S3'' ''5'']]"
  have wf: "list_all wfGrouped ?results"
    by (simp add: wfGrouped_example)
  have keys: "list_all hasKeys ?results"
    by (simp add: hasKeys_def exampleGroupedPeriod_facts exampleGroup_facts)
  have ks: "firstSeen (allKeys ?results) = [''EC2'', ''S3'']"
    by (simp add: allKeys_def exampleGroupedPeriod_facts exampleGroup_facts firstSeen_def)
  have sl: "slots [''EC2'', ''S3''] = [(''EC2'', 0), (''S3'', 1)]"
    by (simp add: slots_def upt_rec)
  have order: "map fst (range_order [1] [(''EC2'', 0::nat), (''S3'', 1)]) = [''S3'', ''EC2'']"
    by simp
  have series: "groupedSeries (exampleEnv False) ?results [''S3'', ''EC2'']
      = [\<lparr>ProductCost.Id = ''S3'',
               Aggregation = [\<lparr>Date = ''2021-01-01'', Amount = Fin 5\<rparr>]\<rparr>,
             \<lparr>ProductCost.Id = ''EC2'',
               Aggregation = [\<lparr>Date = ''2021-01-01'', Amount = Fin 10\<rparr>]\<rparr>]"
    by (simp add: groupedSeries_def seriesOf_def groupPoints_def exampleGroupedPeriod_facts
      exampleGroup_facts exampleParseFloat_values fgt_def)
  show ?thesis
    using getGroupedAwsKeyIndex_slots [OF keys]
      getGroupedAwsProducts_groupedSeries [OF wf, of "exampleEnv False" "[]" "[1]"]
    by (simp only: ks sl order series simp_thms)
qed

subsection \<open>The two-period split\<close>

lemma initEntities_nth:
  assumes "set es \<subseteq> set (slots ks)" and "length costs = length ks"
  shows "\<exists>costs'. initEntities change0 es costs = Inr costs' \<and> length costs' = length ks \<and>
           (\<forall>i<length ks. costs' ! i =
              (if (ks ! i, i) \<in> set es
               then Some \<lparr>Id = ks ! i, Aggregation = [Fin 0, Fin 0], Change = change0\<rparr>
               else costs ! i))"
  using assms
proof (induction es arbitrary: costs)
  case Nil
  then show ?case by simp
next
  case (Cons e es)
  obtain k j where e: "e = (k, j)" by (cases e)
  from Cons.prems(1) have j: "j < length ks" and k: "ks ! j = k"
    by (simp_all add: e in_slots)
  let ?costs1 = "costs[j := Some \<lparr>Id = k, Aggregation = [Fin 0, Fin 0], Change = change0\<rparr>]"
  from Cons.prems have "set es \<subseteq> set (slots ks)" and "length ?costs1 = length ks"
    by simp_all
  from Cons.IH [OF this] obtain costs' where
    run: "initEntities change0 es ?costs1 = Inr costs'" and len: "length costs' = length ks"
    and nth: "\<forall>i<length ks. costs' ! i =
              (if (ks ! i, i) \<in> set es
               then Some \<lparr>Id = ks ! i, Aggregation = [Fin 0, Fin 0], Change = change0\<rparr>
               else ?costs1 ! i)"
    by blast
  have "initEntities change0 (e # es) costs = Inr costs'"
    using run j Cons.prems(2) by (simp add: e)
  moreover have "costs' ! i =
      (if (ks ! i, i) \<in> set (e # es)
       then Some \<lparr>Id = ks ! i, Aggregation = [Fin 0, Fin 0], Change = change0\<rparr>
       else costs ! i)" if "i < length ks" for i
    using nth that k j Cons.prems(2) by (auto simp: e nth_list_update)
  ultimately show ?case using len by blast
qed

lemma initEntities_slots:
  assumes "set es = set (slots ks)"
  shows "initEntities change0 es (replicate (length ks) None)
           = Inr (map (\<lambda>k. Some \<lparr>Id = k, Aggregation = [Fin 0, Fin 0], Change = change0\<rparr>) ks)"
proof -
  from initEntities_nth [of es ks "replicate (length ks) None" change0] assms
  obtain costs' where run: "initEntities change0 es (replicate (length ks) None) = Inr costs'"
    and len: "length costs' = length ks"
    and nth: "\<forall>i<length ks. costs' ! i =
              (if (ks ! i, i) \<in> set es
               then Some \<lparr>Id = ks ! i, Aggregation = [Fin 0, Fin 0], Change = change0\<rparr>
               else replicate (length ks) None ! i)"
    by auto
  have "costs' = map (\<lambda>k. Some \<lparr>Id = k, Aggregation = [Fin 0, Fin 0], Change = change0\<rparr>) ks"
  proof (rule nth_equalityI)
    show "length costs'
        = length (map (\<lambda>k. Some \<lparr>Id = k, Aggregation = [Fin 0, Fin 0], Change = change0\<rparr>) ks)"
      using len by simp
  next
    fix i
    assume "i < length costs'"
    then have i: "i < length ks" using len by simp
    then have "(ks ! i, i) \<in> set es" by (simp add: assms in_slots)
    then show "costs' ! i
        = map (\<lambda>k. Some \<lparr>Id = k, Aggregation = [Fin 0, Fin 0], Change = change0\<rparr>) ks ! i"
      using nth i by simp
  qed
  with run show ?thesis by simp
qed

text \<open>The slice during the loops: the entity of the key \<open>k\<close> holds the pair \<open>[b0 k, b1 k]\<close>.\<close>

lemma addToBucket_slots:
  assumes "distinct ks" and "Keys grp \<noteq> []" and "firstKey grp \<in> set ks"
  shows "addToBucket (slots ks) grp (if late then 1 else 0) amount
           (map (\<lambda>k. Some \<lparr>Id = k, Aggregation = [b0 k, b1 k], Change = change0\<rparr>) ks)
         = Inr (map (\<lambda>k. Some \<lparr>Id = k,
                     Aggregation =
                       [if k = firstKey grp \<and> \<not> late then fadd (b0 k) amount else b0 k,
                        if k = firstKey grp \<and> late then fadd (b1 k) amount else b1 k],
                     Change = change0\<rparr>) ks)"
proof -
  from assms(2) obtain k0 rest_keys where k0: "Keys grp = k0 # rest_keys"
    by (cases "Keys grp") auto
  then have fk: "firstKey grp = k0" by (simp add: firstKey_def)
  define i where "i = lookupIndex (slots ks) k0"
  from lookupIndex_slots [OF assms(1), of k0] assms(3) fk
  have i: "i < length ks" and ki: "ks ! i = k0" by (simp_all add: i_def)
  show ?thesis
    using i ki
    by (cases late)
      (auto simp: addToBucket_def k0 fk i_def [symmetric] map_update_distinct [OF assms(1) i]
        intro!: map_cong)
qed

lemma entityGroups_buckets:
  assumes "distinct ks"
    and "list_all (\<lambda>grp. Keys grp \<noteq> [] \<and> firstKey grp \<in> set ks \<and> hasAmounts (Metrics grp)) groups"
  shows "entityGroups ev (slots ks) midPoint i groups
           (map (\<lambda>k. Some \<lparr>Id = k, Aggregation = [b0 k, b1 k], Change = change0\<rparr>) ks)
         = Inr (map (\<lambda>k. Some \<lparr>Id = k,
                     Aggregation =
                       [foldl fadd (b0 k)
                          (if midPoint \<le> i then []
                           else map (\<lambda>grp. costMetricAmount ev (Metrics grp))
                                  (filter (\<lambda>grp. firstKey grp = k) groups)),
                        foldl fadd (b1 k)
                          (if midPoint \<le> i
                           then map (\<lambda>grp. costMetricAmount ev (Metrics grp))
                                  (filter (\<lambda>grp. firstKey grp = k) groups)
                           else [])],
                     Change = change0\<rparr>) ks)"
  using assms(2)
proof (induction groups arbitrary: b0 b1)
  case Nil
  then show ?case by simp
next
  case (Cons grp groups)
  from Cons.prems have keys: "Keys grp \<noteq> []" and mem: "firstKey grp \<in> set ks"
    and am: "hasAmounts (Metrics grp)"
    and rest: "list_all (\<lambda>grp. Keys grp \<noteq> [] \<and> firstKey grp \<in> set ks \<and> hasAmounts (Metrics grp)) groups"
    by simp_all
  note gm = groupMetrics_costMetricAmount [OF am, of ev]
  show ?case
  proof (cases "midPoint \<le> i")
    case True
    have "entityGroups ev (slots ks) midPoint i (grp # groups)
           (map (\<lambda>k. Some \<lparr>Id = k, Aggregation = [b0 k, b1 k], Change = change0\<rparr>) ks)
        = entityGroups ev (slots ks) midPoint i groups
           (map (\<lambda>k. Some \<lparr>Id = k, Aggregation =
              [b0 k, if k = firstKey grp then fadd (b1 k) (costMetricAmount ev (Metrics grp))
                     else b1 k], Change = change0\<rparr>) ks)"
    proof -
      have "addToBucket (slots ks) grp 1 (costMetricAmount ev (Metrics grp))
           (map (\<lambda>k. Some \<lparr>Id = k, Aggregation = [b0 k, b1 k], Change = change0\<rparr>) ks)
         = Inr (map (\<lambda>k. Some \<lparr>Id = k, Aggregation =
              [b0 k, if k = firstKey grp then fadd (b1 k) (costMetricAmount ev (Metrics grp))
                     else b1 k], Change = change0\<rparr>) ks)"
        using addToBucket_slots [OF assms(1) keys mem, of True _ b0 b1 change0] by simp
      then show ?thesis using True by (simp add: gm)
    qed
    also have "\<dots> = Inr (map (\<lambda>k. Some \<lparr>Id = k, Aggregation =
              [b0 k, foldl fadd (if k = firstKey grp
                     then fadd (b1 k) (costMetricAmount ev (Metrics grp)) else b1 k)
                  (map (\<lambda>grp. costMetricAmount ev (Metrics grp))
                                  (filter (\<lambda>grp. firstKey grp = k) groups))],
              Change = change0\<rparr>) ks)"
      using True Cons.IH [OF rest] by simp
    finally show ?thesis
      using True by (auto intro!: map_cong)
  next
    case False
    have "entityGroups ev (slots ks) midPoint i (grp # groups)
           (map (\<lambda>k. Some \<lparr>Id = k, Aggregation = [b0 k, b1 k], Change = change0\<rparr>) ks)
        = entityGroups ev (slots ks) midPoint i groups
           (map (\<lambda>k. Some \<lparr>Id = k, Aggregation =
              [if k = firstKey grp then fadd (b0 k) (costMetricAmount ev (Metrics grp))
               else b0 k, b1 k], Change = change0\<rparr>) ks)"
    proof -
      have "addToBucket (slots ks) grp 0 (costMetricAmount ev (Metrics grp))
           (map (\<lambda>k. Some \<lparr>Id = k, Aggregation = [b0 k, b1 k], Change = change0\<rparr>) ks)
         = Inr (map (\<lambda>k. Some \<lparr>Id = k, Aggregation =
              [if k = firstKey grp then fadd (b0 k) (costMetricAmount ev (Metrics grp))
               else b0 k, b1 k], Change = change0\<rparr>) ks)"
        using addToBucket_slots [OF assms(1) keys mem, of False _ b0 b1 change0] by simp
      then show ?thesis using False by (simp add: gm)
    qed
    also have "\<dots> = Inr (map (\<lambda>k. Some \<lparr>Id = k, Aggregation =
              [foldl fadd (if k = firstKey grp
                     then fadd (b0 k) (costMetricAmount ev (Metrics grp)) else b0 k)
                  (map (\<lambda>grp. costMetricAmount ev (Metrics grp))
                                  (filter (\<lambda>grp. firstKey grp = k) groups)), b1 k],
              Change = change0\<rparr>) ks)"
      using False Cons.IH [OF rest] by simp
    finally show ?thesis
      using False by (auto intro!: map_cong)
  qed
qed

lemma groupAmounts_Nil: "groupAmounts ev k [] = []"
  by (simp add: groupAmounts_def)

lemma groupAmounts_Cons:
  "groupAmounts ev k (result # results) =
     map (\<lambda>grp. costMetricAmount ev (Metrics grp))
       (filter (\<lambda>grp. firstKey grp = k) (Groups result)) @ groupAmounts ev k results"
  by (simp add: groupAmounts_def)

lemma entityResults_buckets:
  assumes "distinct ks"
    and "list_all wfEntity results"
    and "set (allKeys results) \<subseteq> set ks"
  shows "entityResults ev (slots ks) midPoint i results
           (map (\<lambda>k. Some \<lparr>Id = k, Aggregation = [b0 k, b1 k], Change = change0\<rparr>) ks)
         = Inr (map (\<lambda>k. Some \<lparr>Id = k,
                     Aggregation =
                       [foldl fadd (b0 k) (groupAmounts ev k (take (midPoint - i) results)),
                        foldl fadd (b1 k) (groupAmounts ev k (drop (midPoint - i) results))],
                     Change = change0\<rparr>) ks)"
  using assms(2,3)
proof (induction results arbitrary: i b0 b1)
  case Nil
  then show ?case by (simp add: groupAmounts_Nil)
next
  case (Cons result results)
  from Cons.prems(1) have wf: "wfEntity result" and rest: "list_all wfEntity results"
    by simp_all
  from Cons.prems(2) have here: "firstKey ` set (Groups result) \<subseteq> set ks"
    and later: "set (allKeys results) \<subseteq> set ks"
    by (simp_all add: allKeys_def)
  have groups: "list_all (\<lambda>grp. Keys grp \<noteq> [] \<and> firstKey grp \<in> set ks \<and> hasAmounts (Metrics grp))
      (Groups result)"
    using wf here by (auto simp: wfEntity_def hasKeys_def list_all_iff)
  show ?case
  proof (cases "midPoint \<le> i")
    case True
    then have z: "midPoint - i = 0" "midPoint - Suc i = 0" by simp_all
    show ?thesis
      using True entityGroups_buckets [OF assms(1) groups, of ev midPoint i b0 b1 change0]
        Cons.IH [OF rest later]
      by (simp add: z groupAmounts_Nil groupAmounts_Cons)
  next
    case False
    then have s: "midPoint - i = Suc (midPoint - Suc i)" by simp
    show ?thesis
      using False entityGroups_buckets [OF assms(1) groups, of ev midPoint i b0 b1 change0]
        Cons.IH [OF rest later]
      by (simp add: s groupAmounts_Cons)
  qed
qed

lemma filterEntities_slots:
  assumes "set es \<subseteq> set (slots ks)"
  shows "filterEntities changeOfEntity es
           (map (\<lambda>k. Some \<lparr>Id = k, Aggregation = [b0 k, b1 k], Change = change0\<rparr>) ks) filtered
         = Inr (filtered @
             map (\<lambda>k. \<lparr>Id = k, Aggregation = [b0 k, b1 k],
                        Change = changeOfEntity [b0 k, b1 k]\<rparr>)
               (filter (\<lambda>k. \<not> bothZero [b0 k, b1 k]) (map fst es)))"
  using assms
proof (induction es arbitrary: filtered)
  case Nil
  then show ?case by simp
next
  case (Cons e es)
  obtain k j where e: "e = (k, j)" by (cases e)
  from Cons.prems have j: "j < length ks" and k: "ks ! j = k"
    and rest: "set es \<subseteq> set (slots ks)"
    by (simp_all add: e in_slots)
  show ?case
    using j k Cons.IH [OF rest] by (simp add: e bothZero_def aggregationIsZero_def)
qed

lemma getEntityAwsProducts_entitySplit:
  assumes "list_all wfEntity results"
  shows "getEntityAwsProducts ev change0 changeOfEntity sched1 sched2 results =
           Inr (entitySplit ev changeOfEntity results
                  (map fst (range_order sched2 (slots (firstSeen (allKeys results))))), None)"
proof -
  let ?ks = "firstSeen (allKeys results)"
  let ?mid = "length results div 2"
  have keys: "list_all hasKeys results"
    using assms by (simp add: list_all_iff wfEntity_def)
  have index: "getGroupedAwsKeyIndex results = Inr (slots ?ks)"
    by (rule getGroupedAwsKeyIndex_slots [OF keys])
  have init: "initEntities change0 (range_order sched1 (slots ?ks)) (replicate (length ?ks) None)
      = Inr (map (\<lambda>k. Some \<lparr>Id = k, Aggregation = [Fin 0, Fin 0], Change = change0\<rparr>) ?ks)"
    by (rule initEntities_slots) (simp add: set_range_order)
  have loop: "entityResults ev (slots ?ks) ?mid 0 results
      (map (\<lambda>k. Some \<lparr>Id = k, Aggregation = [Fin 0, Fin 0], Change = change0\<rparr>) ?ks)
      = Inr (map (\<lambda>k. Some \<lparr>Id = k,
                     Aggregation =
                       [foldl fadd (Fin 0) (groupAmounts ev k (take (?mid - 0) results)),
                        foldl fadd (Fin 0) (groupAmounts ev k (drop (?mid - 0) results))],
                     Change = change0\<rparr>) ?ks)"
    by (rule entityResults_buckets [OF distinct_firstSeen assms]) (simp add: set_firstSeen)
  have filt: "filterEntities changeOfEntity (range_order sched2 (slots ?ks))
      (map (\<lambda>k. Some \<lparr>Id = k,
                     Aggregation = [bucketTotal ev k (take ?mid results),
                                    bucketTotal ev k (drop ?mid results)],
                     Change = change0\<rparr>) ?ks) []
      = Inr ([] @
             map (\<lambda>k. \<lparr>Id = k, Aggregation = [bucketTotal ev k (take ?mid results),
                                    bucketTotal ev k (drop ?mid results)],
                        Change = changeOfEntity [bucketTotal ev k (take ?mid results),
                                    bucketTotal ev k (drop ?mid results)]\<rparr>)
               (filter (\<lambda>k. \<not> bothZero [bucketTotal ev k (take ?mid results),
                                    bucketTotal ev k (drop ?mid results)])
                  (map fst (range_order sched2 (slots ?ks)))))"
    by (rule filterEntities_slots) (simp add: set_range_order)
  show ?thesis
    using index init loop filt
    by (simp add: getEntityAwsProducts_def entitySplit_def entityOf_def beforeAfter_def
        bucketTotal_def length_slots)
qed

lemma entityOf_in_entitySplit:
  "entityOf ev changeOfEntity results k \<in> set (entitySplit ev changeOfEntity results ks)
     \<longleftrightarrow> k \<in> set ks \<and> \<not> bothZero (beforeAfter ev results k)"
proof -
  have "entityOf ev changeOfEntity results k = entityOf ev changeOfEntity results k' \<Longrightarrow> k = k'"
    for k'
    by (simp add: entityOf_def)
  then show ?thesis
    by (auto simp: entitySplit_def)
qed

lemma set_keys_range_order:
  "set (map fst (range_order sched (slots (firstSeen xs)))) = set xs"
proof -
  have "set (map fst (range_order sched (slots (firstSeen xs)))) = fst ` set (slots (firstSeen xs))"
    by (simp add: set_range_order)
  also have "\<dots> = set (map fst (slots (firstSeen xs)))"
    by simp
  also have "\<dots> = set xs"
    by (simp only: map_fst_slots set_firstSeen)
  finally show ?thesis .
qed

text \<open>
  C7: over periods of a grouped query whose groups have a key and amounts, with
  \<open>midPoint = len(results) / 2\<close>, the pair of a key is the sum of the amounts of its
  groups in the periods before the midpoint (the first \<open>midPoint\<close> periods) and the sum
  over the remaining periods; the result holds the entities of the discovered keys whose
  pair is not zero twice, and no other. A sequence of \<open>2 n + 1\<close> periods is split into the
  first \<open>n\<close> and the remaining \<open>n + 1\<close>.
\<close>

theorem getEntityAwsProducts_split:
  assumes "list_all wfEntity results"
  shows "getEntityAwsProducts ev change0 changeOfEntity sched1 sched2 results =
           Inr (entitySplit ev changeOfEntity results
                  (map fst (range_order sched2 (slots (firstSeen (allKeys results))))), None) \<and>
         (k \<in> set (allKeys results) \<and> \<not> bothZero (beforeAfter ev results k) \<longleftrightarrow>
            entityOf ev changeOfEntity results k \<in>
              set (entitySplit ev changeOfEntity results
                    (map fst (range_order sched2 (slots (firstSeen (allKeys results))))))) \<and>
         beforeAfter ev results k =
           [foldl fadd (Fin 0) (groupAmounts ev k (take (length results div 2) results)),
            foldl fadd (Fin 0) (groupAmounts ev k (drop (length results div 2) results))] \<and>
         (length results = 2 * n + 1 \<longrightarrow>
            length (take (length results div 2) results) = n \<and>
            length (drop (length results div 2) results) = n + 1)"
  using getEntityAwsProducts_entitySplit [OF assms, of ev change0 changeOfEntity sched1 sched2]
  by (auto simp: entityOf_in_entitySplit set_keys_range_order beforeAfter_def bucketTotal_def
      simp del: set_map)

text \<open>
  C10: the sums of a key take every amount as it is, of either sign, and the entity of a
  discovered key is in the result as soon as its pair is not zero twice, whatever the
  signs of the two sums.
\<close>

theorem getEntityAwsProducts_keeps_negative:
  assumes "list_all wfEntity results"
    and "k \<in> set (allKeys results)"
    and "\<not> (feq (bucketTotal ev k (take (length results div 2) results)) (Fin 0) \<and>
            feq (bucketTotal ev k (drop (length results div 2) results)) (Fin 0))"
  shows "\<exists>entities.
           getEntityAwsProducts ev change0 changeOfEntity sched1 sched2 results
             = Inr (entities, None) \<and>
           \<lparr>Id = k,
            Aggregation = [bucketTotal ev k (take (length results div 2) results),
                           bucketTotal ev k (drop (length results div 2) results)],
            Change = changeOfEntity
                       [bucketTotal ev k (take (length results div 2) results),
                        bucketTotal ev k (drop (length results div 2) results)]\<rparr>
             \<in> set entities"
proof -
  have "\<not> bothZero (beforeAfter ev results k)"
    using assms(3) by (simp add: bothZero_def beforeAfter_def)
  then have "entityOf ev changeOfEntity results k \<in>
      set (entitySplit ev changeOfEntity results
            (map fst (range_order sched2 (slots (firstSeen (allKeys results))))))"
    using assms(2) by (simp only: entityOf_in_entitySplit set_keys_range_order simp_thms)
  then show ?thesis
    using getEntityAwsProducts_entitySplit [OF assms(1), of ev change0 changeOfEntity sched1 sched2]
    by (simp add: entityOf_def beforeAfter_def)
qed

lemma wfEntity_example:
  "wfEntity (exampleGroupedPeriod d [])"
  "wfEntity (exampleGroupedPeriod d [exampleGroup k1 a1])"
  "wfEntity (exampleGroupedPeriod d [exampleGroup k1 a1, exampleGroup k2 a2])"
  by (simp_all add: wfEntity_def hasKeys_def exampleGroupedPeriod_facts exampleGroup_facts)

lemma float_entity_values:
  "fadd (Fin 0) (Fin 10) = Fin 10" "fadd (Fin 0) (Fin 5) = Fin 5"
  "fadd (Fin 5) (Fin 5) = Fin 10" "fadd (Fin 0) (Fin (- 5)) = Fin (- 5)"
  "fadd (Fin (- 5)) (Fin 0) = Fin (- 5)"
  by code_simp+

lemma entitySplit_example_odd:
  "entitySplit (exampleEnv False) (\<lambda>pair. pair)
     [exampleGroupedPeriod ''2021-01-01'' [exampleGroup ''EC2'' ''10''],
      exampleGroupedPeriod ''2021-01-02'' [exampleGroup ''EC2'' ''5'', exampleGroup ''S3'' ''0''],
      exampleGroupedPeriod ''2021-01-03'' [exampleGroup ''EC2'' ''5'']]
     [''EC2'', ''S3'']
   = [\<lparr>Id = ''EC2'', Aggregation = [Fin 10, Fin 10], Change = [Fin 10, Fin 10]\<rparr>]"
proof -
  have h: "length [exampleGroupedPeriod ''2021-01-01'' [exampleGroup ''EC2'' ''10''],
      exampleGroupedPeriod ''2021-01-02'' [exampleGroup ''EC2'' ''5'', exampleGroup ''S3'' ''0''],
      exampleGroupedPeriod ''2021-01-03'' [exampleGroup ''EC2'' ''5'']] div 2 = Suc 0"
    by simp
  show ?thesis
    unfolding entitySplit_def entityOf_def beforeAfter_def bucketTotal_def bothZero_def h
    by (simp add: groupAmounts_def exampleGroupedPeriod_facts exampleGroup_facts
        exampleParseFloat_values float_entity_values float_example_values
        del: fadd.simps)
qed

theorem getEntityAwsProducts_split_witness:
  "list_all wfEntity
     [exampleGroupedPeriod ''2021-01-01'' [exampleGroup ''EC2'' ''10''],
      exampleGroupedPeriod ''2021-01-02'' [exampleGroup ''EC2'' ''5'', exampleGroup ''S3'' ''0''],
      exampleGroupedPeriod ''2021-01-03'' [exampleGroup ''EC2'' ''5'']] \<and>
   getEntityAwsProducts (exampleEnv False) [] (\<lambda>pair. pair) [] []
     [exampleGroupedPeriod ''2021-01-01'' [exampleGroup ''EC2'' ''10''],
      exampleGroupedPeriod ''2021-01-02'' [exampleGroup ''EC2'' ''5'', exampleGroup ''S3'' ''0''],
      exampleGroupedPeriod ''2021-01-03'' [exampleGroup ''EC2'' ''5'']]
     = Inr ([\<lparr>Id = ''EC2'', Aggregation = [Fin 10, Fin 10], Change = [Fin 10, Fin 10]\<rparr>], None) \<and>
   length
     [exampleGroupedPeriod ''2021-01-01'' [exampleGroup ''EC2'' ''10''],
      exampleGroupedPeriod ''2021-01-02'' [exampleGroup ''EC2'' ''5'', exampleGroup ''S3'' ''0''],
      exampleGroupedPeriod ''2021-01-03'' [exampleGroup ''EC2'' ''5'']] = 2 * 1 + 1"
proof -
  let ?results = "[exampleGroupedPeriod ''2021-01-01'' [exampleGroup ''EC2'' ''10''],
      exampleGroupedPeriod ''2021-01-02'' [exampleGroup ''EC2'' ''5'', exampleGroup ''S3'' ''0''],
      exampleGroupedPeriod ''2021-01-03'' [exampleGroup ''EC2'' ''5'']]"
  have wf: "list_all wfEntity ?results"
    by (simp add: wfEntity_example)
  have ks: "firstSeen (allKeys ?results) = [''EC2'', ''S3'']"
    by (simp add: allKeys_def exampleGroupedPeriod_facts exampleGroup_facts firstSeen_def)
  have order: "map fst (range_order [] (slots [''EC2'', ''S3''])) = [''EC2'', ''S3'']"
    by (simp add: map_fst_slots)
  have "getEntityAwsProducts (exampleEnv False) [] (\<lambda>pair. pair) [] [] ?results
     = Inr ([\<lparr>Id = ''EC2'', Aggregation = [Fin 10, Fin 10], Change = [Fin 10, Fin 10]\<rparr>], None)"
    using getEntityAwsProducts_split
            [OF wf, of "exampleEnv False" "[]" "\<lambda>pair. pair" "[]" "[]", THEN conjunct1]
    by (simp only: ks order entitySplit_example_odd)
  then show ?thesis
    using wf by simp
qed

lemma entitySplit_example_negative:
  "entitySplit (exampleEnv False) (\<lambda>pair. pair)
     [exampleGroupedPeriod ''2021-01-01'' [exampleGroup ''EC2'' ''-5''],
      exampleGroupedPeriod ''2021-01-02'' [exampleGroup ''EC2'' ''0'', exampleGroup ''S3'' ''-5'']]
     [''EC2'', ''S3'']
   = [\<lparr>Id = ''EC2'', Aggregation = [Fin (- 5), Fin 0], Change = [Fin (- 5), Fin 0]\<rparr>,
      \<lparr>Id = ''S3'', Aggregation = [Fin 0, Fin (- 5)], Change = [Fin 0, Fin (- 5)]\<rparr>]"
proof -
  have h: "length [exampleGroupedPeriod ''2021-01-01'' [exampleGroup ''EC2'' ''-5''],
      exampleGroupedPeriod ''2021-01-02'' [exampleGroup ''EC2'' ''0'', exampleGroup ''S3'' ''-5'']]
      div 2 = Suc 0"
    by simp
  show ?thesis
    unfolding entitySplit_def entityOf_def beforeAfter_def bucketTotal_def bothZero_def h
    by (simp add: groupAmounts_def exampleGroupedPeriod_facts exampleGroup_facts
        exampleParseFloat_values float_entity_values float_example_values
        del: fadd.simps)
qed

theorem getEntityAwsProducts_keeps_negative_witness:
  "list_all wfEntity
     [exampleGroupedPeriod ''2021-01-01'' [exampleGroup ''EC2'' ''-5''],
      exampleGroupedPeriod ''2021-01-02'' [exampleGroup ''EC2'' ''0'', exampleGroup ''S3'' ''-5'']] \<and>
   ''EC2'' \<in> set (allKeys
     [exampleGroupedPeriod ''2021-01-01'' [exampleGroup ''EC2'' ''-5''],
      exampleGroupedPeriod ''2021-01-02'' [exampleGroup ''EC2'' ''0'', exampleGroup ''S3'' ''-5'']]) \<and>
   bucketTotal (exampleEnv False) ''EC2''
     (take 1 [exampleGroupedPeriod ''2021-01-01'' [exampleGroup ''EC2'' ''-5''],
      exampleGroupedPeriod ''2021-01-02'' [exampleGroup ''EC2'' ''0'', exampleGroup ''S3'' ''-5'']])
     = Fin (- 5) \<and>
   bucketTotal (exampleEnv False) ''EC2''
     (drop 1 [exampleGroupedPeriod ''2021-01-01'' [exampleGroup ''EC2'' ''-5''],
      exampleGroupedPeriod ''2021-01-02'' [exampleGroup ''EC2'' ''0'', exampleGroup ''S3'' ''-5'']])
     = Fin 0 \<and>
   (\<exists>entities.
      getEntityAwsProducts (exampleEnv False) [] (\<lambda>pair. pair) [] []
        [exampleGroupedPeriod ''2021-01-01'' [exampleGroup ''EC2'' ''-5''],
         exampleGroupedPeriod ''2021-01-02'' [exampleGroup ''EC2'' ''0'', exampleGroup ''S3'' ''-5'']]
        = Inr (entities, None) \<and>
      \<lparr>Id = ''EC2'', Aggregation = [Fin (- 5), Fin 0], Change = [Fin (- 5), Fin 0]\<rparr>
        \<in> set entities) \<and>
   getEntityAwsProducts (exampleEnv False) [] (\<lambda>pair. pair) [] []
     [exampleGroupedPeriod ''2021-01-01'' [exampleGroup ''EC2'' ''-5''],
      exampleGroupedPeriod ''2021-01-02'' [exampleGroup ''EC2'' ''0'', exampleGroup ''S3'' ''-5'']]
     = Inr ([\<lparr>Id = ''EC2'', Aggregation = [Fin (- 5), Fin 0], Change = [Fin (- 5), Fin 0]\<rparr>,
             \<lparr>Id = ''S3'', Aggregation = [Fin 0, Fin (- 5)], Change = [Fin 0, Fin (- 5)]\<rparr>],
            None)"
proof -
  let ?results = "[exampleGroupedPeriod ''2021-01-01'' [exampleGroup ''EC2'' ''-5''],
      exampleGroupedPeriod ''2021-01-02'' [exampleGroup ''EC2'' ''0'', exampleGroup ''S3'' ''-5'']]"
  have wf: "list_all wfEntity ?results"
    by (simp add: wfEntity_example)
  have mem: "''EC2'' \<in> set (allKeys ?results)"
    by (simp add: allKeys_def exampleGroupedPeriod_facts exampleGroup_facts)
  have h: "length ?results div 2 = 1"
    by simp
  have b: "bucketTotal (exampleEnv False) ''EC2'' (take 1 ?results) = Fin (- 5)"
    by (simp add: bucketTotal_def groupAmounts_def exampleGroupedPeriod_facts exampleGroup_facts
        exampleParseFloat_values float_entity_values del: fadd.simps)
  have a: "bucketTotal (exampleEnv False) ''EC2'' (drop 1 ?results) = Fin 0"
    by (simp add: bucketTotal_def groupAmounts_def exampleGroupedPeriod_facts exampleGroup_facts
        exampleParseFloat_values float_example_values del: fadd.simps)
  have nz: "\<not> (feq (bucketTotal (exampleEnv False) ''EC2'' (take (length ?results div 2) ?results))
                 (Fin 0) \<and>
               feq (bucketTotal (exampleEnv False) ''EC2'' (drop (length ?results div 2) ?results))
                 (Fin 0))"
    unfolding h a b by simp
  have ks: "firstSeen (allKeys ?results) = [''EC2'', ''S3'']"
    by (simp add: allKeys_def exampleGroupedPeriod_facts exampleGroup_facts firstSeen_def)
  have order: "map fst (range_order [] (slots [''EC2'', ''S3''])) = [''EC2'', ''S3'']"
    by (simp add: map_fst_slots)
  have out: "getEntityAwsProducts (exampleEnv False) [] (\<lambda>pair. pair) [] [] ?results
     = Inr ([\<lparr>Id = ''EC2'', Aggregation = [Fin (- 5), Fin 0], Change = [Fin (- 5), Fin 0]\<rparr>,
             \<lparr>Id = ''S3'', Aggregation = [Fin 0, Fin (- 5)], Change = [Fin 0, Fin (- 5)]\<rparr>],
            None)"
    using getEntityAwsProducts_entitySplit [OF wf, of "exampleEnv False" "[]" "\<lambda>pair. pair" "[]" "[]"]
    by (simp only: ks order entitySplit_example_negative)
  show ?thesis
    using getEntityAwsProducts_keeps_negative
            [OF wf mem nz, of "[]" "\<lambda>pair. pair" "[]" "[]"] wf mem out
    unfolding h a b by simp
qed

subsection \<open>Totality\<close>

lemma sumDateAggregationAmounts_total:
  "list_all (hasNetAmortizedCost ev) results \<Longrightarrow>
   \<exists>x. sumDateAggregationAmounts ev results acc = Inr x"
proof (induction results arbitrary: acc)
  case Nil
  then show ?case by simp
next
  case (Cons result results)
  from Cons.prems have "hasNetAmortizedCost ev result" and rest: "list_all (hasNetAmortizedCost ev) results"
    by simp_all
  then obtain metric s where "map_of (Total result) (MetricNetAmortizedCost ev) = Some metric"
    and "MetricValue.Amount metric = Some s"
    by (auto simp: hasNetAmortizedCost_def split: option.splits)
  then show ?case
    using Cons.IH [OF rest] by simp
qed

lemma SupportCostForAWS_total:
  assumes "list_all (hasNetAmortizedCost ev) results" and "SupportCostThresholds account \<noteq> []"
  shows "\<exists>c. SupportCostForAWS ev account results = Inr (c, None)"
proof -
  from sumDateAggregationAmounts_total [OF assms(1)]
  obtain x where "sumDateAggregationAmounts ev results (Fin 0) = Inr x" by blast
  moreover from assms(2) obtain t ts where "SupportCostThresholds account = t # ts"
    by (cases "SupportCostThresholds account") auto
  ultimately show ?thesis
    by (simp add: SupportCostForAWS_def)
qed

lemma supCostOf_total:
  assumes "support_cost ev \<longrightarrow>
             SupportCostThresholds (AwsAccounts (account_type ev)) \<noteq> [] \<and>
             list_all (hasNetAmortizedCost ev) results"
  shows "\<exists>s. supCostOf ev results = Inr s"
proof (cases "support_cost ev")
  case True
  with assms SupportCostForAWS_total [of ev results "AwsAccounts (account_type ev)"]
  obtain c where "SupportCostForAWS ev (AwsAccounts (account_type ev)) results = Inr (c, None)"
    by blast
  then show ?thesis using True by (simp add: supCostOf_def)
next
  case False
  then show ?thesis by (simp add: supCostOf_def)
qed

lemma aggregationForAWS_total:
  assumes "list_all (\<lambda>r. hasStart r \<and> hasAmounts (Total r)) results"
    and "support_cost ev \<longrightarrow>
           SupportCostThresholds (AwsAccounts (account_type ev)) \<noteq> [] \<and>
           list_all (hasNetAmortizedCost ev) results"
  shows "\<exists>series. aggregationForAWS ev results = Inr (series, None)"
proof -
  from supCostOf_total [OF assms(2)] obtain s where "supCostOf ev results = Inr s" by blast
  then show ?thesis
    by (simp add: aggregationForAWS_def dateAggregations_wellformed [OF assms(1)])
qed

lemma range_order_Nil: "range_order cs [] = []"
  by (cases cs) simp_all

lemma empty_results:
  "getGroupedAwsProducts ev sched1 sched2 [] = Inr ([], None)"
  "getEntityAwsProducts ev change0 changeOfEntity sched1 sched2 [] = Inr ([], None)"
  by (simp_all add: getGroupedAwsProducts_def getEntityAwsProducts_def getGroupedAwsKeyIndex_def
      range_order_Nil)

subsection \<open>Amounts that are not decimal numbers\<close>







subsection \<open>Failures of the date series and of the surcharge\<close>

text \<open>
  C8 fails in the program. With the surcharge on and the Business profile, the date series
  of one period whose total holds only the metric \<^verbatim>\<open>UnblendedCost\<close>, which is the metric that
  the comments of the source expect there, dereferences the nil pointer that the lookup of
  the net amortized cost returns; with the surcharge off the same period gives its point.
  With a profile that has no bracket (an account type that is not in the table) the surcharge
  of the empty period list indexes the empty bracket list, and so does the date series when
  the surcharge is on.
\<close>

theorem aggregationForAWS_panics:
  "aggregationForAWS (exampleEnv True) [exampleUnblendedPeriod ''2021-01-01'' ''10'']
     = Inl NilPointerDereference \<and>
   aggregationForAWS (exampleEnv False) [exampleUnblendedPeriod ''2021-01-01'' ''10'']
     = Inr ([\<lparr>Date = ''2021-01-01'', Amount = Fin 10\<rparr>], None) \<and>
   SupportCostForAWS (exampleEnv True) (AwsAccounts ''PREMIUM'') [] = Inl IndexOutOfRange \<and>
   aggregationForAWS ((exampleEnv True)\<lparr>account_type := ''PREMIUM''\<rparr>) [] = Inl IndexOutOfRange"
proof -
  have n: "sumDateAggregationAmounts (exampleEnv True)
      [exampleUnblendedPeriod ''2021-01-01'' ''10''] (Fin 0) = Inl NilPointerDereference"
    by (simp add: exampleUnblendedPeriod_def exampleMetric_def exampleEnv_def)
  have 1: "aggregationForAWS (exampleEnv True) [exampleUnblendedPeriod ''2021-01-01'' ''10'']
     = Inl NilPointerDereference"
    using n by (simp add: aggregationForAWS_def supCostOf_def SupportCostForAWS_def exampleEnv_def
        BusinessAccount_profile)
  have wf: "list_all (\<lambda>r. hasStart r \<and> hasAmounts (Total r) \<and> Total r \<noteq> [])
      [exampleUnblendedPeriod ''2021-01-01'' ''10'']"
    by (simp add: exampleUnblendedPeriod_def exampleMetric_def hasStart_def hasAmounts_def)
  have c: "costMetricAmount (exampleEnv False) (Total (exampleUnblendedPeriod ''2021-01-01'' ''10''))
      = Fin 10"
    by (simp add: exampleUnblendedPeriod_def exampleMetric_def costMetricAmount_def amountOf_def
        getAwsMetricAmount_def exampleEnv_def exampleParseFloat_values)
  have st: "startOf (exampleUnblendedPeriod ''2021-01-01'' ''10'') = ''2021-01-01''"
    by (simp add: exampleUnblendedPeriod_def startOf_def)
  have l: "length (Total (exampleUnblendedPeriod ''2021-01-01'' ''10'')) = Suc 0"
    by (simp add: exampleUnblendedPeriod_def exampleMetric_def)
  have 2: "aggregationForAWS (exampleEnv False) [exampleUnblendedPeriod ''2021-01-01'' ''10'']
     = Inr ([\<lparr>Date = ''2021-01-01'', Amount = Fin 10\<rparr>], None)"
    by (simp add: aggregationForAWS_dateSeries [OF wf supCostOf_example_off] dateSeries_def
        periodAmount_def c st l float64_of_len_values float_example_values fgt_def
        del: fadd.simps fdiv.simps)
  have e: "SupportCostThresholds (AwsAccounts ''PREMIUM'') = []"
    by (simp add: AwsAccounts_def DeveloperAccount_def BusinessAccount_def EnterpriseAccount_def)
  have 3: "SupportCostForAWS (exampleEnv True) (AwsAccounts ''PREMIUM'') [] = Inl IndexOutOfRange"
    by (simp add: SupportCostForAWS_def e)
  have 4: "aggregationForAWS ((exampleEnv True)\<lparr>account_type := ''PREMIUM''\<rparr>) []
     = Inl IndexOutOfRange"
    using 3 by (simp add: aggregationForAWS_def supCostOf_def exampleEnv_def SupportCostForAWS_def e)
  from 1 2 3 4 show ?thesis by simp
qed

end
